theory Spec2Isabelle
  imports Complex_Main
begin

section \<open>Shared types (packages/shared/src/types.ts)\<close>

text \<open>
  JavaScript numbers that the data model declares as integers (balances, deltas,
  millisecond timestamps) are modelled as unbounded \<open>int\<close>: the addition of the applier is
  exact integer addition, which is what the double arithmetic of the source computes as
  long as every value stays below \<open>2^53\<close> in magnitude. Where a property adds over a whole
  run of calls, the applier is taken with the rounding addition of the source
  (\<open>applyIdempotentTransaction_double\<close>). Three names of the source are
  taken in Isabelle and are written differently here: the field \<open>record\<close> of a transaction
  result is \<open>result_record\<close>, the method \<open>record\<close> of the ring is \<open>record_txn\<close> and its field
  \<open>size\<close> is \<open>ring_size\<close>. Fields of different records that share a name in the source
  carry a prefix.
\<close>

datatype EconomySource = Discord | Game

record ProcessedTransactionRecord =
  txnId :: string
  delta :: int
  balanceAfter :: int
  actor :: string
  source :: EconomySource
  processedAt :: int
  reason :: "string option"

record TransactionResult =
  balance :: int
  processed :: bool
  result_record :: ProcessedTransactionRecord

text \<open>\<open>a ?? b\<close>: the left operand unless it is \<open>undefined\<close>.\<close>

definition nullish :: "'a option \<Rightarrow> 'a option \<Rightarrow> 'a option" where
  "nullish a b = (case a of Some x \<Rightarrow> Some x | None \<Rightarrow> b)"

section \<open>The processed-transaction ring (packages/shared/src/txn.ts)\<close>

text \<open>
  The class \<open>ProcessedTxnBuffer\<close> has four private fields: the slot array \<open>buffer\<close>
  (\<open>null\<close> is \<open>None\<close>), the capacity \<open>size\<close>, the write position \<open>cursor\<close> and the index
  \<open>lookup\<close>, a \<open>Map\<close> from transaction id to record that the code only reads with \<open>get\<close>
  and writes with \<open>set\<close> and \<open>delete\<close>.
\<close>

record ProcessedTxnBuffer =
  buffer :: "ProcessedTransactionRecord option list"
  ring_size :: nat
  cursor :: nat
  lookup :: "string \<rightharpoonup> ProcessedTransactionRecord"

datatype ring_error = SizeNotPositive | InvalidArrayLength

definition empty_ring :: "nat \<Rightarrow> ProcessedTxnBuffer" where
  "empty_ring n = \<lparr>buffer = replicate n None, ring_size = n, cursor = 0, lookup = Map.empty\<rparr>"

text \<open>
  The constructor throws for a size that is not positive; \<open>new Array(size)\<close> throws a
  \<open>RangeError\<close> above \<open>2^32 - 1\<close>. The default argument is 64.
\<close>

definition new_ProcessedTxnBuffer :: "int \<Rightarrow> ring_error + ProcessedTxnBuffer" where
  "new_ProcessedTxnBuffer sz =
     (if sz \<le> 0 then Inl SizeNotPositive
      else if sz > 4294967295 then Inl InvalidArrayLength
      else Inr (empty_ring (nat sz)))"

definition DEFAULT_RING_SIZE :: int where
  "DEFAULT_RING_SIZE = 64"

text \<open>
  Array reads and writes as JavaScript performs them: a read past the end gives
  \<open>undefined\<close>, which the code treats like \<open>null\<close>; a write past the end extends the
  array with holes.
\<close>

definition slot_at :: "'a option list \<Rightarrow> nat \<Rightarrow> 'a option" where
  "slot_at xs i = (if i < length xs then xs ! i else None)"

definition slot_set :: "'a option list \<Rightarrow> nat \<Rightarrow> 'a \<Rightarrow> 'a option list" where
  "slot_set xs i v =
     (if i < length xs then xs[i := Some v]
      else xs @ replicate (i - length xs) None @ [Some v])"

text \<open>
  \<open>record(txn)\<close>: the result pairs \<open>inserted\<close> with the returned record; the second
  component is the buffer after the call. The capacity is positive in every buffer the
  constructor returns, so \<open>mod\<close> is never taken by zero there.
\<close>

definition record_txn ::
  "ProcessedTxnBuffer \<Rightarrow> ProcessedTransactionRecord \<Rightarrow>
     (bool \<times> ProcessedTransactionRecord) \<times> ProcessedTxnBuffer" where
  "record_txn b txn =
     (case lookup b (txnId txn) of
        Some existing \<Rightarrow> ((False, existing), b)
      | None \<Rightarrow>
          (let lk = (case slot_at (buffer b) (cursor b) of
                       Some displaced \<Rightarrow> (lookup b)(txnId displaced := None)
                     | None \<Rightarrow> lookup b)
           in ((True, txn),
               b\<lparr>buffer := slot_set (buffer b) (cursor b) txn,
                 lookup := lk(txnId txn \<mapsto> txn),
                 cursor := (cursor b + 1) mod ring_size b\<rparr>)))"

definition get_txn :: "ProcessedTxnBuffer \<Rightarrow> string \<Rightarrow> ProcessedTransactionRecord option" where
  "get_txn b tid = lookup b tid"

text \<open>
  \<open>listNewestFirst\<close>: for \<open>i = 0 .. size - 1\<close> the slot
  \<open>(cursor - 1 - i + size) % size\<close> is read and kept when it is not empty. The dividend is
  never negative for \<open>cursor \<ge> 0\<close> and \<open>i < size\<close>, so the remainder of JavaScript and
  \<open>mod\<close> agree.
\<close>

definition newest_index :: "ProcessedTxnBuffer \<Rightarrow> nat \<Rightarrow> nat" where
  "newest_index b i = nat ((int (cursor b) - 1 - int i + int (ring_size b)) mod int (ring_size b))"

fun non_null :: "'a option list \<Rightarrow> 'a list" where
  "non_null [] = []"
| "non_null (None # xs) = non_null xs"
| "non_null (Some x # xs) = x # non_null xs"

definition listNewestFirst :: "ProcessedTxnBuffer \<Rightarrow> ProcessedTransactionRecord list" where
  "listNewestFirst b =
     non_null (map (\<lambda>i. slot_at (buffer b) (newest_index b i)) [0..<ring_size b])"

text \<open>
  The resident records, oldest first: \<open>buffer.listNewestFirst().reverse()\<close>, which is what
  the store client persists as \<open>processed\<close>.
\<close>

definition resident :: "ProcessedTxnBuffer \<Rightarrow> ProcessedTransactionRecord list" where
  "resident b = rev (listNewestFirst b)"

text \<open>
  The class invariant: the slot array has \<open>size\<close> slots and the cursor points into it;
  read from the cursor onwards (wrapping around), the slots are the empty ones followed by
  the resident records in insertion order; resident ids are pairwise different and the
  index maps exactly each resident id to its record.
\<close>

definition ring_inv :: "ProcessedTxnBuffer \<Rightarrow> bool" where
  "ring_inv b \<longleftrightarrow>
     0 < ring_size b \<and> length (buffer b) = ring_size b \<and> cursor b < ring_size b \<and>
     rotate (cursor b) (buffer b)
       = replicate (ring_size b - length (resident b)) None @ map Some (resident b) \<and>
     distinct (map txnId (resident b)) \<and>
     lookup b = (\<lambda>k. find (\<lambda>r. txnId r = k) (resident b))"

subsection \<open>The idempotent applier\<close>

text \<open>
  The parameter object of \<open>applyIdempotentTransaction\<close>. \<open>timestamp\<close> is optional; when it
  is absent the code reads the clock (\<open>Date.now()\<close>), which the model takes as the
  argument \<open>now\<close>.
\<close>

record TxnParams =
  p_txnId :: string
  p_delta :: int
  p_actor :: string
  p_source :: EconomySource
  p_reason :: "string option"
  p_timestamp :: "int option"

definition candidate :: "int \<Rightarrow> TxnParams \<Rightarrow> int \<Rightarrow> ProcessedTransactionRecord" where
  "candidate currentBalance params now =
     \<lparr>txnId = p_txnId params,
      delta = p_delta params,
      balanceAfter = currentBalance + p_delta params,
      actor = p_actor params,
      source = p_source params,
      processedAt = (case p_timestamp params of Some t \<Rightarrow> t | None \<Rightarrow> now),
      reason = p_reason params\<rparr>"

definition applyIdempotentTransaction ::
  "int \<Rightarrow> TxnParams \<Rightarrow> ProcessedTxnBuffer \<Rightarrow> int \<Rightarrow> TransactionResult \<times> ProcessedTxnBuffer" where
  "applyIdempotentTransaction currentBalance params b now =
     (let rec = candidate currentBalance params now;
          ((ins, persisted), b') = record_txn b rec
      in (\<lparr>balance = (if ins then balanceAfter rec else currentBalance),
           processed = ins,
           result_record = persisted\<rparr>, b'))"

subsection \<open>Sequences of calls\<close>

text \<open>
  A caller that feeds records to one buffer, one \<open>record\<close> call after the other (the
  seeding loop of the store client does this). \<open>inserted_log\<close> lists the records for
  which the call answered \<open>inserted = true\<close>, in call order.
\<close>

fun record_all :: "ProcessedTxnBuffer \<Rightarrow> ProcessedTransactionRecord list \<Rightarrow> ProcessedTxnBuffer" where
  "record_all b [] = b"
| "record_all b (t # ts) = record_all (snd (record_txn b t)) ts"

fun inserted_log ::
  "ProcessedTxnBuffer \<Rightarrow> ProcessedTransactionRecord list \<Rightarrow> ProcessedTransactionRecord list" where
  "inserted_log b [] = []"
| "inserted_log b (t # ts) =
     (if fst (fst (record_txn b t)) then [t] else []) @ inserted_log (snd (record_txn b t)) ts"

text \<open>
  A session that applies commands one after the other to one ring, handing each call the
  balance the previous call returned. A call is the parameter object together with the
  clock reading at that call. The result is the list of call results, the final balance
  and the final ring.
\<close>

type_synonym apply_call = "TxnParams \<times> int"

fun applyMany ::
  "int \<Rightarrow> ProcessedTxnBuffer \<Rightarrow> apply_call list \<Rightarrow>
     TransactionResult list \<times> int \<times> ProcessedTxnBuffer" where
  "applyMany bal b [] = ([], bal, b)"
| "applyMany bal b ((p, now) # cs) =
     (let (r, b') = applyIdempotentTransaction bal p b now;
          (rs, bal', b'') = applyMany (balance r) b' cs
      in (r # rs, bal', b''))"

subsection \<open>The read-modify-write of the store client (\<open>updateEconomyProfile\<close>)\<close>

record EconomyTransactionCommand =
  cmd_txnId :: string
  cmd_userId :: string
  cmd_delta :: int
  cmd_reason :: "string option"
  cmd_actor :: string
  cmd_source :: EconomySource

record EconomyProfileData =
  profile_balance :: int
  profile_processed :: "ProcessedTransactionRecord list"

text \<open>The parameter object built from a command; it carries no \<open>timestamp\<close>.\<close>

definition command_params :: "EconomyTransactionCommand \<Rightarrow> TxnParams" where
  "command_params command =
     \<lparr>p_txnId = cmd_txnId command, p_delta = cmd_delta command, p_actor = cmd_actor command,
      p_source = cmd_source command, p_reason = cmd_reason command, p_timestamp = None\<rparr>"

text \<open>
  \<open>new ProcessedTxnBuffer()\<close>, which does not throw for the default size, followed by
  \<open>buffer.record(record)\<close> for each stored record.
\<close>

definition seeded_buffer :: "ProcessedTransactionRecord list \<Rightarrow> ProcessedTxnBuffer" where
  "seeded_buffer stored = record_all (empty_ring (nat DEFAULT_RING_SIZE)) stored"

text \<open>
  One run of the function handed to \<open>withBackoff\<close>, for the case that the two store
  requests succeed: \<open>current\<close> is the entry read (\<open>None\<close> for a missing entry), the result is
  the transaction result, the profile returned with it, and the profile posted to the
  store (\<open>None\<close> when nothing is posted).
\<close>

definition updateEconomyProfile_attempt ::
  "EconomyProfileData option \<Rightarrow> EconomyTransactionCommand \<Rightarrow> int \<Rightarrow>
     TransactionResult \<times> EconomyProfileData \<times> EconomyProfileData option" where
  "updateEconomyProfile_attempt current command now =
     (let profile = (case current of
                       Some d \<Rightarrow> d
                     | None \<Rightarrow> \<lparr>profile_balance = 0, profile_processed = []\<rparr>);
          buffer = seeded_buffer (profile_processed profile);
          (result, buffer') =
             applyIdempotentTransaction (profile_balance profile) (command_params command)
               buffer now
      in if \<not> processed result then (result, profile, None)
         else
           (let updatedProfile =
                  \<lparr>profile_balance = balance result,
                   profile_processed = rev (listNewestFirst buffer')\<rparr>
            in (result, updatedProfile, Some updatedProfile)))"

text \<open>
  Commands handled one after the other, each by a run whose requests succeed; the entry
  in the store is replaced by what a run posts.
\<close>

fun updateMany ::
  "EconomyProfileData option \<Rightarrow> (EconomyTransactionCommand \<times> int) list \<Rightarrow>
     TransactionResult list \<times> EconomyProfileData option" where
  "updateMany stored [] = ([], stored)"
| "updateMany stored ((command, now) # cs) =
     (let (result, profile, posted) = updateEconomyProfile_attempt stored command now;
          (rs, stored') = updateMany (nullish posted stored) cs
      in (result # rs, stored'))"

subsection \<open>The conservation property as the specification words it\<close>

text \<open>
  The sum of delta over all distinct transaction ids ever applied: of the calls, in
  order, the first one of each transaction id counts (first writer wins), later calls
  with an id already seen do not. \<open>seen\<close> lists the ids met so far.
\<close>

fun spec_first_applies :: "string list \<Rightarrow> TxnParams list \<Rightarrow> TxnParams list" where
  "spec_first_applies seen [] = []"
| "spec_first_applies seen (p # ps) =
     (if p_txnId p \<in> set seen then spec_first_applies seen ps
      else p # spec_first_applies (p_txnId p # seen) ps)"

definition spec_distinct_delta_sum :: "apply_call list \<Rightarrow> int" where
  "spec_distinct_delta_sum cs = sum_list (map p_delta (spec_first_applies [] (map fst cs)))"

subsection \<open>Scenario S3: sixty-five credits of one unit\<close>

text \<open>
  The calls of the ring eviction scenario: transaction ids \<open>T1\<close> to \<open>T65\<close>, each crediting
  one unit, issued by the bot.
\<close>

definition S3_txnIds :: "string list" where
  "S3_txnIds =
     [''T1'', ''T2'', ''T3'', ''T4'', ''T5'', ''T6'', ''T7'', ''T8'', ''T9'', ''T10'',
      ''T11'', ''T12'', ''T13'', ''T14'', ''T15'', ''T16'', ''T17'', ''T18'', ''T19'',
      ''T20'', ''T21'', ''T22'', ''T23'', ''T24'', ''T25'', ''T26'', ''T27'', ''T28'',
      ''T29'', ''T30'', ''T31'', ''T32'', ''T33'', ''T34'', ''T35'', ''T36'', ''T37'',
      ''T38'', ''T39'', ''T40'', ''T41'', ''T42'', ''T43'', ''T44'', ''T45'', ''T46'',
      ''T47'', ''T48'', ''T49'', ''T50'', ''T51'', ''T52'', ''T53'', ''T54'', ''T55'',
      ''T56'', ''T57'', ''T58'', ''T59'', ''T60'', ''T61'', ''T62'', ''T63'', ''T64'', ''T65'']"

definition credit_one :: "string \<Rightarrow> apply_call" where
  "credit_one t =
     (\<lparr>p_txnId = t, p_delta = 1, p_actor = ''admin'', p_source = Discord,
       p_reason = None, p_timestamp = None\<rparr>, 0)"

definition S3_calls :: "apply_call list" where
  "S3_calls = map credit_one S3_txnIds"

subsection \<open>The applier with the arithmetic of the source\<close>

text \<open>
  The numbers of the source are IEEE-754 doubles. Balances and deltas are integers (the
  bot reads its amounts as integers). On integers the sum of the source is the exact sum
  rounded to 53 significant bits, to the nearest value and, half-way between two values,
  to the one with the even significand; sums of magnitude \<open>2^1024\<close> and above, which the
  source turns into \<open>Infinity\<close>, are not modelled. \<open>exponent_above m\<close> is the number of
  low bits of \<open>m\<close> that do not fit into 53 bits.
\<close>

function exponent_above :: "nat \<Rightarrow> nat" where
  "exponent_above m = (if m < 2 ^ 53 then 0 else Suc (exponent_above (m div 2)))"
  by pat_completeness auto
termination
  by (relation "measure id") auto

declare exponent_above.simps [simp del]

definition round_double :: "int \<Rightarrow> int" where
  "round_double x =
     (let m = nat \<bar>x\<bar>;
          e = exponent_above m;
          q = m div 2 ^ e;
          r = m mod 2 ^ e
      in if e = 0 then x
         else sgn x
                * int ((if 2 ^ e < 2 * r \<or> (2 * r = 2 ^ e \<and> odd q) then q + 1 else q)
                         * 2 ^ e))"

definition double_add :: "int \<Rightarrow> int \<Rightarrow> int" where
  "double_add a b = round_double (a + b)"

text \<open>
  \<open>applyIdempotentTransaction\<close> and a session of calls once more, with
  \<open>balanceAfter: currentBalance + params.delta\<close> computed as the source computes it.
\<close>

definition candidate_double :: "int \<Rightarrow> TxnParams \<Rightarrow> int \<Rightarrow> ProcessedTransactionRecord" where
  "candidate_double currentBalance params now =
     \<lparr>txnId = p_txnId params,
      delta = p_delta params,
      balanceAfter = double_add currentBalance (p_delta params),
      actor = p_actor params,
      source = p_source params,
      processedAt = (case p_timestamp params of Some t \<Rightarrow> t | None \<Rightarrow> now),
      reason = p_reason params\<rparr>"

definition applyIdempotentTransaction_double ::
  "int \<Rightarrow> TxnParams \<Rightarrow> ProcessedTxnBuffer \<Rightarrow> int \<Rightarrow> TransactionResult \<times> ProcessedTxnBuffer" where
  "applyIdempotentTransaction_double currentBalance params b now =
     (let rec = candidate_double currentBalance params now;
          ((ins, persisted), b') = record_txn b rec
      in (\<lparr>balance = (if ins then balanceAfter rec else currentBalance),
           processed = ins,
           result_record = persisted\<rparr>, b'))"

fun applyMany_double ::
  "int \<Rightarrow> ProcessedTxnBuffer \<Rightarrow> apply_call list \<Rightarrow>
     TransactionResult list \<times> int \<times> ProcessedTxnBuffer" where
  "applyMany_double bal b [] = ([], bal, b)"
| "applyMany_double bal b ((p, now) # cs) =
     (let (r, b') = applyIdempotentTransaction_double bal p b now;
          (rs, bal', b'') = applyMany_double (balance r) b' cs
      in (r # rs, bal', b''))"

text \<open>
  Safe integers (\<open>Number.isSafeInteger\<close>) are the integers of magnitude at most
  \<open>2^53 - 1\<close>. A run of calls is safe when the starting balance, the delta of every call
  and the balance that every call returns are safe integers.
\<close>

definition MAX_SAFE_INTEGER :: int where
  "MAX_SAFE_INTEGER = 9007199254740991"

definition safe_integer :: "int \<Rightarrow> bool" where
  "safe_integer x \<longleftrightarrow> - MAX_SAFE_INTEGER \<le> x \<and> x \<le> MAX_SAFE_INTEGER"

definition safe_run :: "int \<Rightarrow> apply_call list \<Rightarrow> TransactionResult list \<Rightarrow> bool" where
  "safe_run bal0 cs rs \<longleftrightarrow>
     safe_integer bal0 \<and> list_all (\<lambda>c. safe_integer (p_delta (fst c))) cs
     \<and> list_all (\<lambda>r. safe_integer (balance r)) rs"

text \<open>
  Three calls with the deltas \<open>2^53 - 1\<close>, 2 and \<open>-(2^53 - 1)\<close>, which leave the safe
  integers.
\<close>

definition unsafe_calls :: "apply_call list" where
  "unsafe_calls =
     [((fst (credit_one ''A''))\<lparr>p_delta := 9007199254740991\<rparr>, 0),
      ((fst (credit_one ''B''))\<lparr>p_delta := 2\<rparr>, 0),
      ((fst (credit_one ''C''))\<lparr>p_delta := - 9007199254740991\<rparr>, 0)]"

section \<open>The audit service (apps/api/src/index.ts)\<close>

subsection \<open>JavaScript values\<close>

text \<open>
  A JavaScript string is a sequence of UTF-16 code units, each a number below 65536. The
  string literals of the source and the values of request headers (which Node decodes as
  Latin-1) have code units below 256; a string taken from a JSON body can hold any code
  unit. \<open>code_units\<close> gives the code units of a Latin-1 literal. What a request body holds
  is a JSON value; the numbers of JSON are taken as real numbers. \<open>undefined\<close> (an absent
  header, an absent field) is \<open>None\<close>.
\<close>

type_synonym js_string = "nat list"

definition code_units :: "string \<Rightarrow> js_string" where
  "code_units s = map of_char s"

datatype json =
  JNull
  | JBool bool
  | JNumber real
  | JString js_string
  | JArray "json list"
  | JObject "(js_string \<times> json) list"

text \<open>
  Truthiness, which \<open>!v\<close> and \<open>if (v)\<close> test: \<open>undefined\<close>, \<open>null\<close>, \<open>false\<close>, \<open>0\<close> and the
  empty string are falsy, every other value is truthy (arrays and objects also when they
  are empty).
\<close>

fun truthy :: "json \<Rightarrow> bool" where
  "truthy JNull = False"
| "truthy (JBool b) = b"
| "truthy (JNumber x) = (x \<noteq> 0)"
| "truthy (JString s) = (s \<noteq> [])"
| "truthy (JArray xs) = True"
| "truthy (JObject kvs) = True"

text \<open>
  \<open>v.k\<close> for a value \<open>v\<close> that is neither \<open>undefined\<close> nor \<open>null\<close> and a field name \<open>k\<close> that
  no prototype defines: the field of an object (of a name that occurs twice, \<open>JSON.parse\<close>
  keeps the last occurrence), \<open>undefined\<close> for every other value.
\<close>

definition js_get :: "json \<Rightarrow> js_string \<Rightarrow> json option" where
  "js_get v k = (case v of JObject kvs \<Rightarrow> map_of (rev kvs) k | _ \<Rightarrow> None)"

text \<open>\<open>v ?? null\<close>.\<close>

definition or_null :: "json option \<Rightarrow> json" where
  "or_null v = (case v of None \<Rightarrow> JNull | Some x \<Rightarrow> x)"

subsection \<open>Hex decoding and the timing-safe comparison\<close>

text \<open>
  \<open>Buffer.from(s, "hex")\<close> decodes two code units at a time, stops at the first pair that
  is not hexadecimal and ignores a trailing single code unit. Node's decoder converts each
  code unit to an 8-bit character before it looks the digit up, so it reads the low byte
  of the code unit only: the code unit \<open>0x0135\<close> is read as \<open>0x35\<close>, the digit 5.
\<close>

definition hex_digit :: "nat \<Rightarrow> nat option" where
  "hex_digit u =
     (let n = u mod 256
      in if 48 \<le> n \<and> n \<le> 57 then Some (n - 48)
         else if 97 \<le> n \<and> n \<le> 102 then Some (n - 87)
         else if 65 \<le> n \<and> n \<le> 70 then Some (n - 55)
         else None)"

fun buffer_from_hex :: "js_string \<Rightarrow> nat list" where
  "buffer_from_hex (a # b # rest) =
     (case hex_digit a of
        None \<Rightarrow> []
      | Some x \<Rightarrow>
          (case hex_digit b of
             None \<Rightarrow> []
           | Some y \<Rightarrow> (16 * x + y) # buffer_from_hex rest))"
| "buffer_from_hex [a] = []"
| "buffer_from_hex [] = []"

text \<open>
  The errors the handler can meet: the \<open>RangeError\<close> of \<open>crypto.timingSafeEqual\<close>, the
  \<open>TypeError\<close> of a call of a method that the value does not have, an \<open>Error\<close> with its
  message, and the errors of the database client.
\<close>

datatype db_error = UniqueConstraintViolation | ValidationError

datatype js_error = RangeError | TypeError | Error string | PrismaError db_error

text \<open>\<open>crypto.timingSafeEqual\<close> throws a \<open>RangeError\<close> for buffers of different byte length.\<close>

definition timingSafeEqual :: "nat list \<Rightarrow> nat list \<Rightarrow> js_error + bool" where
  "timingSafeEqual a b = (if length a \<noteq> length b then Inl RangeError else Inr (a = b))"

subsection \<open>The rows of the database\<close>

text \<open>
  The two tables the handler touches: \<open>webhookDelivery\<close> with the unique column \<open>key\<close>,
  and \<open>auditLog\<close> with the unique column \<open>txnId\<close>. A row holds the values the handler
  passes to the database client, as it passes them. The column \<open>createdAt\<close>, which the
  database fills in, is left out.
\<close>

record WebhookDelivery =
  wd_key :: json
  wd_payloadHash :: js_string

record AuditRow =
  al_txnId :: "json option"
  al_userId :: "json option"
  al_delta :: "json option"
  al_actor :: "json option"
  al_source :: "json option"
  al_reason :: json

record database =
  webhookDelivery :: "WebhookDelivery list"
  auditLog :: "AuditRow list"

subsection \<open>The environment of the service\<close>

text \<open>
  What the service takes from its environment, from Node and from the database client:
  the secret \<open>HMAC_SECRET\<close>, \<open>JSON.stringify\<close>, \<open>String.prototype.toLowerCase\<close>,
  HMAC-SHA-256 with hexadecimal digest
  (\<open>createHmac("sha256", key).update(data).digest("hex")\<close>), SHA-256 with hexadecimal
  digest, and the validation of the database client against its schema, which is not part
  of the sources: \<open>delivery_key_valid\<close> says which values the client accepts for the column
  \<open>key\<close>, \<open>audit_row_valid\<close> which rows it accepts for \<open>auditLog\<close>. They are parameters of
  the model.
\<close>

record node_env =
  HMAC_SECRET :: js_string
  JSON_stringify :: "json \<Rightarrow> js_string"
  toLowerCase :: "js_string \<Rightarrow> js_string"
  hmac_sha256_hex :: "js_string \<Rightarrow> js_string \<Rightarrow> js_string"
  sha256_hex :: "js_string \<Rightarrow> js_string"
  delivery_key_valid :: "json \<Rightarrow> bool"
  audit_row_valid :: "AuditRow \<Rightarrow> bool"

text \<open>A hexadecimal digest of SHA-256: 64 code units, each a digit or a letter \<open>a\<close>..\<open>f\<close>.\<close>

definition lower_hex_unit :: "nat \<Rightarrow> bool" where
  "lower_hex_unit u \<longleftrightarrow> (48 \<le> u \<and> u \<le> 57) \<or> (97 \<le> u \<and> u \<le> 102)"

definition hex_digest :: "js_string \<Rightarrow> bool" where
  "hex_digest s \<longleftrightarrow> length s = 64 \<and> list_all lower_hex_unit s"

subsection \<open>Signature verification and the payload hash\<close>

text \<open>
  \<open>verifySignature(payload, signature)\<close>. The handler calls it with a payload that is
  truthy and with whatever the request carries as signature. A falsy signature is rejected
  first. \<open>signature.toLowerCase()\<close> stands outside the \<open>try\<close> block: for a signature that
  is truthy and not a string it throws a \<open>TypeError\<close>, which leaves the function. The body
  of the \<open>try\<close> block is \<open>verifySignature_try\<close>; the \<open>catch\<close> turns every exception of it
  into \<open>false\<close>.
\<close>

definition verifySignature_try :: "js_string \<Rightarrow> js_string \<Rightarrow> js_error + bool" where
  "verifySignature_try normalized expected =
     timingSafeEqual (buffer_from_hex normalized) (buffer_from_hex expected)"

definition verifySignature :: "node_env \<Rightarrow> json \<Rightarrow> json option \<Rightarrow> js_error + bool" where
  "verifySignature env payload signature =
     (case signature of
        None \<Rightarrow> Inr False
      | Some v \<Rightarrow>
          if \<not> truthy v then Inr False
          else
            (let expected = hmac_sha256_hex env (HMAC_SECRET env) (JSON_stringify env payload)
             in case v of
                  JString sig \<Rightarrow>
                    (let normalized = toLowerCase env sig
                     in if length expected \<noteq> length normalized then Inr False
                        else (case verifySignature_try normalized expected of
                                Inl err \<Rightarrow> Inr False
                              | Inr eq \<Rightarrow> Inr eq))
                | _ \<Rightarrow> Inl TypeError))"

definition hashPayload :: "node_env \<Rightarrow> json \<Rightarrow> js_string" where
  "hashPayload env payload = sha256_hex env (JSON_stringify env payload)"

subsection \<open>The operations of the database client\<close>

text \<open>
  Rows are kept in insertion order. Each operation throws a validation error for
  arguments that the client does not accept; \<open>create\<close> throws also when a row with the key
  exists. \<open>upsert\<close> has an empty \<open>update\<close>: an existing row with the id stays as it is.
  Failures of the database itself are not modelled.
\<close>

definition webhookDelivery_findUnique ::
  "node_env \<Rightarrow> database \<Rightarrow> json \<Rightarrow> db_error + WebhookDelivery option" where
  "webhookDelivery_findUnique env db k =
     (if \<not> delivery_key_valid env k then Inl ValidationError
      else Inr (find (\<lambda>r. wd_key r = k) (webhookDelivery db)))"

definition webhookDelivery_create ::
  "node_env \<Rightarrow> database \<Rightarrow> WebhookDelivery \<Rightarrow> db_error + database" where
  "webhookDelivery_create env db row =
     (if \<not> delivery_key_valid env (wd_key row) then Inl ValidationError
      else
        (case find (\<lambda>r. wd_key r = wd_key row) (webhookDelivery db) of
           Some existing \<Rightarrow> Inl UniqueConstraintViolation
         | None \<Rightarrow> Inr (db\<lparr>webhookDelivery := webhookDelivery db @ [row]\<rparr>)))"

definition auditLog_upsert :: "node_env \<Rightarrow> database \<Rightarrow> AuditRow \<Rightarrow> db_error + database" where
  "auditLog_upsert env db row =
     (if \<not> audit_row_valid env row then Inl ValidationError
      else
        (case find (\<lambda>r. al_txnId r = al_txnId row) (auditLog db) of
           Some existing \<Rightarrow> Inr db
         | None \<Rightarrow> Inr (db\<lparr>auditLog := auditLog db @ [row]\<rparr>)))"

subsection \<open>The handler of POST /log/transactions\<close>

text \<open>
  The parts of a request the handler reads: the headers \<open>X-Signature\<close> and
  \<open>Idempotency-Key\<close>, which are strings when present, and the fields \<open>idempotencyKey\<close>,
  \<open>signature\<close> and \<open>payload\<close> of the parsed JSON body, which are JSON values of any kind
  when present.
\<close>

record LogRequest =
  header_signature :: "js_string option"
  header_idempotencyKey :: "js_string option"
  body_idempotencyKey :: "json option"
  body_signature :: "json option"
  body_payload :: "json option"

datatype response_body =
  ErrorBody string
  | LogResponse bool bool

record HttpResponse =
  http_status :: nat
  http_body :: response_body

text \<open>The row built from the fields of the payload for \<open>auditLog.upsert\<close>.\<close>

definition audit_row :: "json \<Rightarrow> AuditRow" where
  "audit_row payload =
     \<lparr>al_txnId = js_get payload (code_units ''txnId''),
      al_userId = js_get payload (code_units ''userId''),
      al_delta = js_get payload (code_units ''delta''),
      al_actor = js_get payload (code_units ''actor''),
      al_source = js_get payload (code_units ''source''),
      al_reason = or_null (js_get payload (code_units ''reason''))\<rparr>"

text \<open>
  The callback of \<open>prisma.$transaction\<close>: it either throws or returns the response object
  and the database it leaves. \<open>LogResponse accepted deduped\<close> is
  \<open>{accepted, deduped}\<close>. The \<open>catch\<close> around \<open>create\<close> catches every error of it;
  an error of \<open>findUnique\<close> inside the \<open>catch\<close> and an error of \<open>upsert\<close> leave the callback.
\<close>

definition log_transaction_body ::
  "node_env \<Rightarrow> database \<Rightarrow> json \<Rightarrow> js_string \<Rightarrow> json \<Rightarrow>
     js_error + (response_body \<times> database)" where
  "log_transaction_body env tx idempotencyKey payloadHash payload =
     (case webhookDelivery_create env tx
             \<lparr>wd_key = idempotencyKey, wd_payloadHash = payloadHash\<rparr> of
        Inl err \<Rightarrow>
          (case webhookDelivery_findUnique env tx idempotencyKey of
             Inl err2 \<Rightarrow> Inl (PrismaError err2)
           | Inr None \<Rightarrow> Inl (Error ''Idempotency key conflict'')
           | Inr (Some existing) \<Rightarrow>
               if wd_payloadHash existing \<noteq> payloadHash
               then Inl (Error ''Idempotency key conflict'')
               else Inr (LogResponse True True, tx))
      | Inr tx1 \<Rightarrow>
          (case auditLog_upsert env tx1 (audit_row payload) of
             Inl err \<Rightarrow> Inl (PrismaError err)
           | Inr tx2 \<Rightarrow> Inr (LogResponse True False, tx2)))"

text \<open>
  The handler. An error that leaves \<open>verifySignature\<close> or the transaction reaches the
  error-handling middleware, which answers 500 with \<open>{error: "internal_error"}\<close>; a
  transaction whose callback throws is rolled back. \<open>res.json\<close> without \<open>res.status\<close>
  answers 200.
\<close>

definition error_middleware :: "js_error \<Rightarrow> HttpResponse" where
  "error_middleware err = \<lparr>http_status = 500, http_body = ErrorBody ''internal_error''\<rparr>"

definition request_signature :: "LogRequest \<Rightarrow> json option" where
  "request_signature req = nullish (map_option JString (header_signature req)) (body_signature req)"

definition request_idempotencyKey :: "LogRequest \<Rightarrow> json option" where
  "request_idempotencyKey req =
     nullish (map_option JString (header_idempotencyKey req)) (body_idempotencyKey req)"

definition post_log_transactions ::
  "node_env \<Rightarrow> LogRequest \<Rightarrow> database \<Rightarrow> HttpResponse \<times> database" where
  "post_log_transactions env req db =
     (let idempotencyKey = request_idempotencyKey req;
          signature = request_signature req
      in case body_payload req of
           None \<Rightarrow> (\<lparr>http_status = 400, http_body = ErrorBody ''payload is required''\<rparr>, db)
         | Some payload \<Rightarrow>
             if \<not> truthy payload
             then (\<lparr>http_status = 400, http_body = ErrorBody ''payload is required''\<rparr>, db)
             else
               (case verifySignature env payload signature of
                  Inl err \<Rightarrow> (error_middleware err, db)
                | Inr valid \<Rightarrow>
                    if \<not> valid
                    then (\<lparr>http_status = 401, http_body = ErrorBody ''invalid signature''\<rparr>, db)
                    else
                      (case idempotencyKey of
                         None \<Rightarrow>
                           (\<lparr>http_status = 400,
                             http_body = ErrorBody ''Idempotency-Key header required''\<rparr>, db)
                       | Some k \<Rightarrow>
                           if \<not> truthy k
                           then (\<lparr>http_status = 400,
                                  http_body = ErrorBody ''Idempotency-Key header required''\<rparr>, db)
                           else
                             (case log_transaction_body env db k (hashPayload env payload)
                                     payload of
                                Inl err \<Rightarrow> (error_middleware err, db)
                              | Inr (result, db') \<Rightarrow>
                                  (\<lparr>http_status = 200, http_body = result\<rparr>, db')))))"

text \<open>
  The signatures for which the amended order of checks is stated: an absent signature, a
  falsy one, and a string.
\<close>

fun is_string :: "json \<Rightarrow> bool" where
  "is_string (JString s) = True"
| "is_string v = False"

definition string_or_falsy :: "json option \<Rightarrow> bool" where
  "string_or_falsy v = (case v of None \<Rightarrow> True | Some x \<Rightarrow> is_string x \<or> \<not> truthy x)"

subsection \<open>A sample environment and sample requests\<close>

text \<open>
  Concrete values for evaluating the service. The payloads are events that differ in
  their transaction id. The stand-in for \<open>JSON.stringify\<close> prints the transaction id of a
  payload, the stand-in for HMAC returns one of two strings of 64 hexadecimal digits,
  depending on the message, and the stand-in for SHA-256 returns its input. The stand-in
  for \<open>toLowerCase\<close> maps \<open>A\<close>..\<open>Z\<close> to \<open>a\<close>..\<open>z\<close> and leaves every other code unit alone,
  as \<open>toLowerCase\<close> does on the strings evaluated below. The database client of the sample
  environment accepts the keys that are strings and the rows whose \<open>txnId\<close> is a string.
\<close>

definition sample_event :: "string \<Rightarrow> json" where
  "sample_event t =
     JObject
       [(code_units ''txnId'', JString (code_units t)),
        (code_units ''userId'', JString (code_units ''42'')),
        (code_units ''delta'', JNumber 10),
        (code_units ''balance'', JNumber 10),
        (code_units ''actor'', JString (code_units ''admin'')),
        (code_units ''source'', JString (code_units ''discord'')),
        (code_units ''occurredAt'', JString (code_units ''2024-01-01T00:00:00.000Z''))]"

definition sample_digest :: js_string where
  "sample_digest =
     code_units ''0123456789abcdef0123456789abcdef0123456789abcdef0123456789abcdef''"

definition other_digest :: js_string where
  "other_digest =
     code_units ''fedcba9876543210fedcba9876543210fedcba9876543210fedcba9876543210''"

definition sample_stringify :: "json \<Rightarrow> js_string" where
  "sample_stringify p =
     (case js_get p (code_units ''txnId'') of Some (JString t) \<Rightarrow> t | _ \<Rightarrow> [])"

definition ascii_lower :: "js_string \<Rightarrow> js_string" where
  "ascii_lower s = map (\<lambda>u. if 65 \<le> u \<and> u \<le> 90 then u + 32 else u) s"

definition sample_env :: node_env where
  "sample_env =
     \<lparr>HMAC_SECRET = code_units ''secret'',
      JSON_stringify = sample_stringify,
      toLowerCase = ascii_lower,
      hmac_sha256_hex = (\<lambda>k m. if m = code_units ''A'' then sample_digest else other_digest),
      sha256_hex = (\<lambda>m. m),
      delivery_key_valid = is_string,
      audit_row_valid = (\<lambda>row. case al_txnId row of Some v \<Rightarrow> is_string v | None \<Rightarrow> False)\<rparr>"

definition empty_database :: database where
  "empty_database = \<lparr>webhookDelivery = [], auditLog = []\<rparr>"

text \<open>A request for a payload with an idempotency key and a signature, both sent as
  headers.\<close>

definition signed_request :: "string \<Rightarrow> json \<Rightarrow> js_string \<Rightarrow> LogRequest" where
  "signed_request k payload sig =
     \<lparr>header_signature = Some sig, header_idempotencyKey = Some (code_units k),
      body_idempotencyKey = None, body_signature = None, body_payload = Some payload\<rparr>"

text \<open>A request with a payload and neither key nor signature.\<close>

definition bare_request :: "json \<Rightarrow> LogRequest" where
  "bare_request payload =
     \<lparr>header_signature = None, header_idempotencyKey = None,
      body_idempotencyKey = None, body_signature = None, body_payload = Some payload\<rparr>"

text \<open>
  The sample digest with its sixth code unit, the digit 5 (\<open>0x35\<close>), replaced by the code
  unit \<open>0x0135\<close> (309, a small letter j with circumflex, which is its own lower case).
\<close>

definition low_byte_signature :: js_string where
  "low_byte_signature =
     code_units ''01234'' @ [309]
       @ code_units ''6789abcdef0123456789abcdef0123456789abcdef0123456789abcdef''"

section \<open>The Open Cloud client (packages/opencloud)\<close>

subsection \<open>The retry wrapper\<close>

text \<open>
  \<open>withBackoff(fn, {retries, baseDelay})\<close>. The operation \<open>fn\<close> is a state transformer:
  from the state of the outside world it gives its outcome (\<open>Inl\<close> a thrown error, \<open>Inr\<close> a
  returned value), the effects it performed and the next state. The wrapper's run is
  recorded as a list of events: \<open>Attempt k\<close> when \<open>fn\<close> is called with \<open>attempt = k\<close>,
  \<open>Inner x\<close> for an effect of \<open>fn\<close>, \<open>Backoff ms\<close> for the wrapper's own \<open>delay(waitMs)\<close>.
  \<open>random k\<close> is what \<open>Math.random()\<close> returns after attempt \<open>k\<close> failed. Durations
  are real numbers of milliseconds; \<open>retries\<close> is an integer. \<open>lastErr\<close> is \<open>None\<close> while it
  is \<open>undefined\<close>.
\<close>

datatype 'x event = Attempt nat | Backoff real | Inner 'x

function withBackoff_loop ::
  "('s \<Rightarrow> ('e + 'a) \<times> 'x list \<times> 's) \<Rightarrow> int \<Rightarrow> real \<Rightarrow> (nat \<Rightarrow> real) \<Rightarrow>
     nat \<Rightarrow> 'e option \<Rightarrow> 's \<Rightarrow> ('e option + 'a) \<times> 'x event list \<times> 's" where
  "withBackoff_loop fn retries baseDelay random attempt lastErr s =
     (if int attempt \<le> retries then
        (case fn s of
           (Inr v, xs, s1) \<Rightarrow> (Inr v, Attempt attempt # map Inner xs, s1)
         | (Inl err, xs, s1) \<Rightarrow>
             if int attempt = retries then (Inl (Some err), Attempt attempt # map Inner xs, s1)
             else
               (let waitMs = baseDelay * 2 ^ attempt + random attempt * 100;
                    (res, evs, s2) =
                      withBackoff_loop fn retries baseDelay random (attempt + 1) (Some err) s1
                in (res, Attempt attempt # map Inner xs @ Backoff waitMs # evs, s2)))
      else (Inl lastErr, [], s))"
  by pat_completeness auto
termination
  by (relation "measure (\<lambda>(fn, retries, baseDelay, random, attempt, lastErr, s).
        nat (retries + 1 - int attempt))") auto

declare withBackoff_loop.simps [simp del]

definition withBackoff ::
  "('s \<Rightarrow> ('e + 'a) \<times> 'x list \<times> 's) \<Rightarrow> int \<Rightarrow> real \<Rightarrow> (nat \<Rightarrow> real) \<Rightarrow> 's \<Rightarrow>
     ('e option + 'a) \<times> 'x event list \<times> 's" where
  "withBackoff fn retries baseDelay random s =
     withBackoff_loop fn retries baseDelay random 0 None s"

text \<open>The run without the effects of \<open>fn\<close>, and the number of times \<open>fn\<close> was called.\<close>

fun is_Inner :: "'x event \<Rightarrow> bool" where
  "is_Inner (Inner x) = True"
| "is_Inner e = False"

fun is_Attempt :: "'x event \<Rightarrow> bool" where
  "is_Attempt (Attempt k) = True"
| "is_Attempt e = False"

definition outline :: "'x event list \<Rightarrow> 'x event list" where
  "outline evs = filter (\<lambda>e. \<not> is_Inner e) evs"

definition executions :: "'x event list \<Rightarrow> nat" where
  "executions evs = length (filter is_Attempt evs)"



subsection \<open>The client options and \<open>request\<close>\<close>

record OpenCloudClientOptions =
  opt_maxRetries :: "int option"
  opt_backoffMs :: "real option"

definition maxRetries :: "OpenCloudClientOptions \<Rightarrow> int" where
  "maxRetries options = (case opt_maxRetries options of Some m \<Rightarrow> m | None \<Rightarrow> 4)"

definition backoffMs :: "OpenCloudClientOptions \<Rightarrow> real" where
  "backoffMs options = (case opt_backoffMs options of Some d \<Rightarrow> d | None \<Rightarrow> 250)"

text \<open>
  What \<open>request\<close> reads of a response: the status, the \<open>Retry-After\<close> header and, for the
  error message of a failed request, the \<open>code\<close> of the JSON body. \<open>fetch\<close> may also fail
  without a response. The network is a function from the number of fetches made so far to
  the outcome of the next one.
\<close>

record Response =
  resp_status :: nat
  resp_retryAfter :: "string option"
  resp_code :: "int option"

datatype fetch_result = NetworkError | Fetched Response

datatype request_error =
  FetchFailed
  | TransientFailure nat
  | RequestFailed nat "int option"

datatype request_effect = RetryAfterDelay real

definition resp_ok :: "Response \<Rightarrow> bool" where
  "resp_ok response \<longleftrightarrow> 200 \<le> resp_status response \<and> resp_status response \<le> 299"

text \<open>
  \<open>retryAfter ? Number(retryAfter) * 1000 : undefined\<close>, followed by \<open>if (delayMs)\<close>: the
  wait happens for a header that is present, not empty, numeric and not zero.
  \<open>Number\<close> is a parameter: \<open>None\<close> stands for \<open>NaN\<close>.
\<close>

definition retry_after_ms :: "(string \<Rightarrow> real option) \<Rightarrow> Response \<Rightarrow> real option" where
  "retry_after_ms Number response =
     (case resp_retryAfter response of
        None \<Rightarrow> None
      | Some h \<Rightarrow>
          if h = [] then None
          else (case Number h of
                  None \<Rightarrow> None
                | Some x \<Rightarrow> if x * 1000 = 0 then None else Some (x * 1000)))"

definition retry_after_wait :: "(string \<Rightarrow> real option) \<Rightarrow> Response \<Rightarrow> request_effect list" where
  "retry_after_wait Number response =
     (case retry_after_ms Number response of
        None \<Rightarrow> []
      | Some delayMs \<Rightarrow> [RetryAfterDelay delayMs])"

text \<open>One call of the function \<open>request\<close> hands to \<open>withBackoff\<close>.\<close>

definition request_attempt ::
  "(string \<Rightarrow> real option) \<Rightarrow> (nat \<Rightarrow> fetch_result) \<Rightarrow> nat \<Rightarrow>
     (request_error + Response) \<times> request_effect list \<times> nat" where
  "request_attempt Number net n =
     (case net n of
        NetworkError \<Rightarrow> (Inl FetchFailed, [], n + 1)
      | Fetched response \<Rightarrow>
          if resp_status response = 429 \<or> resp_status response \<ge> 500
          then (Inl (TransientFailure (resp_status response)),
                retry_after_wait Number response, n + 1)
          else if \<not> resp_ok response
          then (Inl (RequestFailed (resp_status response) (resp_code response)), [], n + 1)
          else (Inr response, [], n + 1))"

text \<open>\<open>retries: req.retryable === false ? 0 : maxRetries\<close>.\<close>

definition request_retries :: "OpenCloudClientOptions \<Rightarrow> bool option \<Rightarrow> int" where
  "request_retries options retryable = (if retryable = Some False then 0 else maxRetries options)"

definition request ::
  "OpenCloudClientOptions \<Rightarrow> (string \<Rightarrow> real option) \<Rightarrow> (nat \<Rightarrow> fetch_result) \<Rightarrow>
     (nat \<Rightarrow> real) \<Rightarrow> bool option \<Rightarrow> nat \<Rightarrow>
     (request_error option + Response) \<times> request_effect event list \<times> nat" where
  "request options Number net random retryable n =
     withBackoff (request_attempt Number net) (request_retries options retryable)
       (backoffMs options) random n"



subsection \<open>The store requests and \<open>updateEconomyProfile\<close> with its requests\<close>

text \<open>
  \<open>getDataStoreEntry\<close> sends a GET through \<open>request\<close>. A 204 answer gives \<open>null\<close>; any
  other answer is read with \<open>response.json()\<close>, a parameter of the model
  (\<open>None\<close> when it throws, \<open>Some None\<close> for the body \<open>null\<close>; a body that is not a profile
  is not modelled). An error whose \<open>code\<close> is 1 stands for a missing entry and gives \<open>null\<close>
  as well; every other error is thrown on. \<open>postDataStoreEntry\<close> sends a POST through
  \<open>request\<close>, marked \<open>retryable: false\<close>. What the two requests carry is not modelled: the
  network answers by the number of fetches made so far.
\<close>

datatype client_error =
  RequestError "request_error option"
  | BodyError

definition getDataStoreEntry ::
  "OpenCloudClientOptions \<Rightarrow> (string \<Rightarrow> real option) \<Rightarrow> (nat \<Rightarrow> fetch_result) \<Rightarrow>
     (nat \<Rightarrow> real) \<Rightarrow> (Response \<Rightarrow> EconomyProfileData option option) \<Rightarrow> nat \<Rightarrow>
     (client_error + EconomyProfileData option) \<times> request_effect event list \<times> nat" where
  "getDataStoreEntry options Number net random response_json n =
     (case request options Number net random None n of
        (Inr response, evs, n') \<Rightarrow>
          if resp_status response = 204 then (Inr None, evs, n')
          else (case response_json response of
                  None \<Rightarrow> (Inl BodyError, evs, n')
                | Some data \<Rightarrow> (Inr data, evs, n'))
      | (Inl err, evs, n') \<Rightarrow>
          (case err of
             Some (RequestFailed status (Some c)) \<Rightarrow>
               if c = 1 then (Inr None, evs, n') else (Inl (RequestError err), evs, n')
           | _ \<Rightarrow> (Inl (RequestError err), evs, n')))"

definition postDataStoreEntry ::
  "OpenCloudClientOptions \<Rightarrow> (string \<Rightarrow> real option) \<Rightarrow> (nat \<Rightarrow> fetch_result) \<Rightarrow>
     (nat \<Rightarrow> real) \<Rightarrow> nat \<Rightarrow>
     (request_error option + Response) \<times> request_effect event list \<times> nat" where
  "postDataStoreEntry options Number net random n =
     request options Number net random (Some False) n"

text \<open>
  The function that \<open>updateEconomyProfile\<close> hands to its own \<open>withBackoff\<close>: the read,
  the computation of \<open>updateEconomyProfile_attempt\<close> with the clock reading \<open>clock n\<close>,
  and, when the transaction was processed, the write. Its effects are the events of the
  two requests. \<open>updateEconomyProfile\<close> runs it with \<open>maxRetries\<close> retries; \<open>random_in\<close>
  is the jitter of the wrappers inside \<open>request\<close>, \<open>random_out\<close> that of the outer wrapper.
\<close>

definition updateEconomyProfile_run ::
  "OpenCloudClientOptions \<Rightarrow> (string \<Rightarrow> real option) \<Rightarrow> (nat \<Rightarrow> fetch_result) \<Rightarrow>
     (nat \<Rightarrow> real) \<Rightarrow> (Response \<Rightarrow> EconomyProfileData option option) \<Rightarrow>
     EconomyTransactionCommand \<Rightarrow> (nat \<Rightarrow> int) \<Rightarrow> nat \<Rightarrow>
     (client_error + TransactionResult \<times> EconomyProfileData)
       \<times> request_effect event list \<times> nat" where
  "updateEconomyProfile_run options Number net random_in response_json command clock n =
     (case getDataStoreEntry options Number net random_in response_json n of
        (Inl err, evs, n1) \<Rightarrow> (Inl err, evs, n1)
      | (Inr current, evs, n1) \<Rightarrow>
          (case updateEconomyProfile_attempt current command (clock n1) of
             (result, profile, None) \<Rightarrow> (Inr (result, profile), evs, n1)
           | (result, profile, Some data) \<Rightarrow>
               (case postDataStoreEntry options Number net random_in n1 of
                  (Inl err, evs2, n2) \<Rightarrow> (Inl (RequestError err), evs @ evs2, n2)
                | (Inr response, evs2, n2) \<Rightarrow> (Inr (result, profile), evs @ evs2, n2))))"

definition updateEconomyProfile ::
  "OpenCloudClientOptions \<Rightarrow> (string \<Rightarrow> real option) \<Rightarrow> (nat \<Rightarrow> fetch_result) \<Rightarrow>
     (nat \<Rightarrow> real) \<Rightarrow> (nat \<Rightarrow> real) \<Rightarrow> (Response \<Rightarrow> EconomyProfileData option option) \<Rightarrow>
     EconomyTransactionCommand \<Rightarrow> (nat \<Rightarrow> int) \<Rightarrow> nat \<Rightarrow>
     (client_error option + TransactionResult \<times> EconomyProfileData)
       \<times> request_effect event event list \<times> nat" where
  "updateEconomyProfile options Number net random_in random_out response_json command clock n =
     withBackoff
       (updateEconomyProfile_run options Number net random_in response_json command clock)
       (maxRetries options) (backoffMs options) random_out n"

subsection \<open>Sample values for the client\<close>

definition default_options :: OpenCloudClientOptions where
  "default_options = \<lparr>opt_maxRetries = None, opt_backoffMs = None\<rparr>"

text \<open>A \<open>Number\<close> stand-in that reads the one string \<open>2\<close>.\<close>

definition sample_Number :: "string \<Rightarrow> real option" where
  "sample_Number h = (if h = ''2'' then Some 2 else None)"



definition no_jitter :: "nat \<Rightarrow> real" where
  "no_jitter k = 0"

text \<open>
  A store that has no entry and whose second answer, the one to the first write, is 503
  with \<open>Retry-After: 2\<close>; a command that credits ten units; a clock that stands still.
\<close>

definition store_unavailable_once :: "nat \<Rightarrow> fetch_result" where
  "store_unavailable_once n =
     (if n = 1
      then Fetched \<lparr>resp_status = 503, resp_retryAfter = Some ''2'', resp_code = None\<rparr>
      else if even n
      then Fetched \<lparr>resp_status = 204, resp_retryAfter = None, resp_code = None\<rparr>
      else Fetched \<lparr>resp_status = 200, resp_retryAfter = None, resp_code = None\<rparr>)"

definition credit_ten :: EconomyTransactionCommand where
  "credit_ten =
     \<lparr>cmd_txnId = ''A'', cmd_userId = ''42'', cmd_delta = 10, cmd_reason = None,
      cmd_actor = ''admin'', cmd_source = Discord\<rparr>"

definition no_body :: "Response \<Rightarrow> EconomyProfileData option option" where
  "no_body response = Some None"

definition still_clock :: "nat \<Rightarrow> int" where
  "still_clock n = 0"

section \<open>Properties of the ring and the applier\<close>

subsection \<open>Single calls\<close>

lemma record_txn_hit:
  "lookup b (txnId t) = Some e \<Longrightarrow> record_txn b t = ((False, e), b)"
  by (simp add: record_txn_def)

lemma record_txn_miss_fst:
  "lookup b (txnId t) = None \<Longrightarrow> fst (record_txn b t) = (True, t)"
  by (simp add: record_txn_def Let_def)

lemma record_txn_miss_lookup:
  "lookup b (txnId t) = None \<Longrightarrow> lookup (snd (record_txn b t)) (txnId t) = Some t"
  by (simp add: record_txn_def Let_def)

lemma txnId_candidate [simp]: "txnId (candidate bal p now) = p_txnId p"
  by (simp add: candidate_def)

lemma delta_candidate [simp]: "delta (candidate bal p now) = p_delta p"
  by (simp add: candidate_def)

lemma apply_hit:
  "lookup b (p_txnId p) = Some e \<Longrightarrow>
   applyIdempotentTransaction bal p b now =
     (\<lparr>balance = bal, processed = False, result_record = e\<rparr>, b)"
  by (simp add: applyIdempotentTransaction_def Let_def record_txn_hit)

lemma apply_miss:
  "lookup b (p_txnId p) = None \<Longrightarrow>
   applyIdempotentTransaction bal p b now =
     (\<lparr>balance = bal + p_delta p, processed = True, result_record = candidate bal p now\<rparr>,
      snd (record_txn b (candidate bal p now)))"
  by (simp add: applyIdempotentTransaction_def Let_def record_txn_def candidate_def
           split: prod.splits)

subsection \<open>The slots read from the cursor\<close>

lemma non_null_append: "non_null (xs @ ys) = non_null xs @ non_null ys"
  by (induction xs rule: non_null.induct) simp_all

lemma non_null_rev: "non_null (rev xs) = rev (non_null xs)"
  by (induction xs rule: non_null.induct) (simp_all add: non_null_append)

lemma non_null_replicate_None: "non_null (replicate n None) = []"
  by (induction n) simp_all

lemma non_null_map_Some: "non_null (map Some xs) = xs"
  by (induction xs) simp_all

lemma length_non_null: "length (non_null xs) \<le> length xs"
  by (induction xs rule: non_null.induct) simp_all

lemma newest_index_eq:
  assumes "i < ring_size b"
  shows "newest_index b i = (cursor b + (ring_size b - 1 - i)) mod ring_size b"
proof -
  have "int (cursor b) - 1 - int i + int (ring_size b) = int (cursor b + (ring_size b - 1 - i))"
    using assms by simp
  then show ?thesis
    unfolding newest_index_def by (simp only: zmod_int [symmetric] nat_int)
qed

lemma newest_slots_rev_rotate:
  assumes "length (buffer b) = ring_size b"
  shows "map (\<lambda>i. slot_at (buffer b) (newest_index b i)) [0..<ring_size b]
           = rev (rotate (cursor b) (buffer b))"
proof (rule nth_equalityI)
  show "length (map (\<lambda>i. slot_at (buffer b) (newest_index b i)) [0..<ring_size b])
          = length (rev (rotate (cursor b) (buffer b)))"
    using assms by simp
next
  fix i
  assume "i < length (map (\<lambda>i. slot_at (buffer b) (newest_index b i)) [0..<ring_size b])"
  then have i: "i < ring_size b" by simp
  then have pos: "0 < ring_size b" by simp
  have idx: "newest_index b i < length (buffer b)"
    using pos assms by (simp add: newest_index_eq [OF i])
  have "rev (rotate (cursor b) (buffer b)) ! i
          = rotate (cursor b) (buffer b) ! (ring_size b - 1 - i)"
    using i assms by (simp add: rev_nth)
  also have "\<dots> = buffer b ! ((cursor b + (ring_size b - 1 - i)) mod ring_size b)"
    using i assms by (simp add: nth_rotate)
  finally show "map (\<lambda>i. slot_at (buffer b) (newest_index b i)) [0..<ring_size b] ! i
                  = rev (rotate (cursor b) (buffer b)) ! i"
    using i idx by (simp add: slot_at_def newest_index_eq [OF i])
qed

lemma listNewestFirst_rotate:
  assumes "length (buffer b) = ring_size b"
  shows "listNewestFirst b = rev (non_null (rotate (cursor b) (buffer b)))"
  unfolding listNewestFirst_def newest_slots_rev_rotate [OF assms] by (rule non_null_rev)

lemma resident_rotate:
  "length (buffer b) = ring_size b \<Longrightarrow> resident b = non_null (rotate (cursor b) (buffer b))"
  by (simp add: resident_def listNewestFirst_rotate)

lemma rotate_update:
  assumes "c < length xs"
  shows "rotate ((c + 1) mod length xs) (xs[c := x]) = tl (rotate c xs) @ [x]"
proof -
  have a: "rotate ((c + 1) mod length xs) (xs[c := x]) = rotate (Suc c) (xs[c := x])"
    using rotate_conv_mod [of "Suc c" "xs[c := x]"] by simp
  have b: "rotate c (xs[c := x]) = (x # drop (Suc c) xs) @ take c xs"
    using assms by (simp add: rotate_drop_take drop_update_swap upd_conv_take_nth_drop)
  have c: "tl (rotate c xs) = drop (Suc c) xs @ take c xs"
    using assms Cons_nth_drop_Suc [of c xs, symmetric] by (simp add: rotate_drop_take)
  show ?thesis
    unfolding a c by (simp add: b)
qed

lemma find_append_list:
  "find P (xs @ ys) = (case find P xs of None \<Rightarrow> find P ys | Some x \<Rightarrow> Some x)"
  by (induction xs) simp_all

subsection \<open>The class invariant is kept by \<open>record\<close>\<close>

lemma find_txnId_None: "find (\<lambda>r. txnId r = k) R = None \<longleftrightarrow> k \<notin> txnId ` set R"
  by (auto simp: find_None_iff)

lemma record_txn_miss_step:
  assumes inv: "ring_inv b" and miss: "lookup b (txnId t) = None"
  shows "ring_inv (snd (record_txn b t)) \<and>
         ring_size (snd (record_txn b t)) = ring_size b \<and>
         resident (snd (record_txn b t))
           = (if length (resident b) < ring_size b then resident b else tl (resident b)) @ [t]"
proof -
  define N where "N = ring_size b"
  define c where "c = cursor b"
  define buf where "buf = buffer b"
  define R where "R = resident b"
  define W where "W = rotate c buf"
  define b' where "b' = snd (record_txn b t)"
  from inv have N: "0 < N" and len: "length buf = N" and c: "c < N"
    and W: "W = replicate (N - length R) None @ map Some R"
    and dist: "distinct (map txnId R)"
    and lk: "lookup b = (\<lambda>k. find (\<lambda>r. txnId r = k) R)"
    unfolding ring_inv_def N_def c_def buf_def R_def W_def by simp_all
  have lenW: "length W = N" by (simp add: W_def len)
  then have lenR: "length R \<le> N" using W by (metis le_add2 length_append length_map)
  have fresh: "txnId t \<notin> txnId ` set R"
    using miss lk by (simp add: find_txnId_None)
  have fnone: "find (\<lambda>r. txnId r = txnId t) R = None"
    using miss lk by simp
  have hdW: "slot_at buf c = hd W"
  proof -
    have "buf \<noteq> []" using len N by auto
    then have "hd (rotate c buf) = buf ! (c mod length buf)" by (rule hd_rotate_conv_nth)
    then show ?thesis using c len by (simp add: slot_at_def W_def)
  qed
  have buf': "buffer b' = buf[c := Some t]"
    and cur': "cursor b' = (c + 1) mod N"
    and size': "ring_size b' = N"
    and lk': "lookup b' = ((case hd W of Some d \<Rightarrow> (lookup b)(txnId d := None) | None \<Rightarrow> lookup b))
                (txnId t \<mapsto> t)"
    using miss c len hdW
    by (simp_all add: b'_def record_txn_def Let_def slot_set_def N_def c_def buf_def)
  have W': "rotate (cursor b') (buffer b') = tl W @ [Some t]"
    using rotate_update [of c buf "Some t"] c len by (simp add: buf' cur' W_def)
  have res': "resident b' = non_null (tl W @ [Some t])"
  proof -
    have "length (buffer b') = ring_size b'" by (simp add: buf' size' len)
    from resident_rotate [OF this] show ?thesis by (simp only: W')
  qed
  show ?thesis
  proof (cases "length R < N")
    case True
    then obtain k where k: "N - length R = Suc k" by (metis Suc_diff_Suc)
    have tlW: "tl W = replicate k None @ map Some R" and hd_None: "hd W = None"
      using W k by simp_all
    have R': "resident b' = R @ [t]"
      by (simp add: res' tlW non_null_append non_null_replicate_None non_null_map_Some)
    have "k = N - length (R @ [t])" using k by simp
    then have shape: "rotate (cursor b') (buffer b')
        = replicate (N - length (resident b')) None @ map Some (resident b')"
      by (simp add: W' tlW R')
    have look: "lookup b' = (\<lambda>k. find (\<lambda>r. txnId r = k) (resident b'))"
      using fnone by (auto simp: lk' hd_None lk R' find_append_list fun_eq_iff
                          split: option.splits)
    have "ring_inv b'"
      unfolding ring_inv_def using N c len shape look dist fresh
      by (simp add: size' buf' cur' R')
    then show ?thesis
      using True R' size' by (simp add: b'_def R_def N_def)
  next
    case False
    then have full: "length R = N" using lenR by simp
    then have Wfull: "W = map Some R" using W by simp
    from full N obtain d R0 where R: "R = d # R0" by (cases R) auto
    have tlW: "tl W = map Some R0" and hd_Some: "hd W = Some d"
      using Wfull R by simp_all
    have R': "resident b' = R0 @ [t]"
      by (simp add: res' tlW non_null_append non_null_map_Some)
    have shape: "rotate (cursor b') (buffer b')
        = replicate (N - length (resident b')) None @ map Some (resident b')"
      using full R by (simp add: W' tlW R')
    have look: "lookup b' = (\<lambda>k. find (\<lambda>r. txnId r = k) (resident b'))"
    proof (rule ext)
      fix k
      have d0: "find (\<lambda>r. txnId r = txnId d) R0 = None"
        using dist R by (simp add: find_txnId_None)
      have t0: "find (\<lambda>r. txnId r = txnId t) R0 = None" and td: "txnId d \<noteq> txnId t"
        using fnone R by (simp_all split: if_splits)
      show "lookup b' k = find (\<lambda>r. txnId r = k) (resident b')"
        using d0 t0 td
        by (cases "k = txnId t"; cases "k = txnId d")
           (auto simp: lk' hd_Some lk R R' find_append_list split: option.splits)
    qed
    have "ring_inv b'"
      unfolding ring_inv_def using N c len shape look dist fresh
      by (simp add: size' buf' cur' R' R)
    then show ?thesis
      using False R' R size' by (simp add: b'_def R_def N_def)
  qed
qed

lemma resident_empty_ring: "resident (empty_ring n) = []"
proof -
  have "length (buffer (empty_ring n)) = ring_size (empty_ring n)" by (simp add: empty_ring_def)
  from resident_rotate [OF this] show ?thesis
    by (simp add: empty_ring_def non_null_replicate_None)
qed

lemma ring_inv_empty_ring: "0 < n \<Longrightarrow> ring_inv (empty_ring n)"
  unfolding ring_inv_def resident_empty_ring by (simp add: empty_ring_def)

lemma ring_inv_lookup_None:
  "ring_inv b \<Longrightarrow> lookup b k = None \<longleftrightarrow> k \<notin> txnId ` set (resident b)"
  by (simp add: ring_inv_def find_txnId_None)

lemma ring_inv_length_resident: "ring_inv b \<Longrightarrow> length (resident b) \<le> ring_size b"
proof -
  assume inv: "ring_inv b"
  then have "length (buffer b) = ring_size b" by (simp add: ring_inv_def)
  then have "length (rotate (cursor b) (buffer b)) = ring_size b" by simp
  moreover from inv have "rotate (cursor b) (buffer b)
     = replicate (ring_size b - length (resident b)) None @ map Some (resident b)"
    by (simp add: ring_inv_def)
  ultimately show ?thesis by (metis le_add2 length_append length_map)
qed

text \<open>The last \<open>n\<close> elements of a list.\<close>

lemma last_n_snoc:
  "drop (length (xs @ [x]) - n) (xs @ [x])
     = (if n = 0 then [] else drop (length xs - (n - 1)) xs @ [x])"
  by (cases n) (auto simp: Suc_diff_le)

lemma record_txn_miss_resident:
  assumes "ring_inv b" and "lookup b (txnId t) = None"
  shows "resident (snd (record_txn b t))
           = drop (length (resident b @ [t]) - ring_size b) (resident b @ [t])"
proof -
  have le: "length (resident b) \<le> ring_size b" by (rule ring_inv_length_resident [OF assms(1)])
  have pos: "0 < ring_size b" using assms(1) by (simp add: ring_inv_def)
  show ?thesis
  proof (cases "length (resident b) < ring_size b")
    case True
    then show ?thesis using record_txn_miss_step [OF assms] by simp
  next
    case False
    then have "length (resident b) = ring_size b" using le by simp
    then show ?thesis using record_txn_miss_step [OF assms] pos
      by (cases "resident b") auto
  qed
qed

lemma drop_last_n_append:
  "drop (length (drop (length xs - n) xs @ ys) - n) (drop (length xs - n) xs @ ys)
     = drop (length (xs @ ys) - n) (xs @ ys)"
  by (cases "length xs \<le> n") (auto simp: add.commute)

lemma record_all_inv:
  "ring_inv b \<Longrightarrow>
     ring_inv (record_all b ts) \<and> ring_size (record_all b ts) = ring_size b \<and>
     resident (record_all b ts)
       = drop (length (resident b @ inserted_log b ts) - ring_size b)
           (resident b @ inserted_log b ts)"
proof (induction ts arbitrary: b)
  case Nil
  then show ?case using ring_inv_length_resident [of b] by simp
next
  case (Cons t ts)
  show ?case
  proof (cases "lookup b (txnId t)")
    case None
    let ?b = "snd (record_txn b t)"
    from record_txn_miss_step [OF Cons.prems None]
    have inv': "ring_inv ?b" and sz: "ring_size ?b = ring_size b" by simp_all
    have res: "resident ?b = drop (length (resident b @ [t]) - ring_size b) (resident b @ [t])"
      by (rule record_txn_miss_resident [OF Cons.prems None])
    have ins: "fst (fst (record_txn b t))" using record_txn_miss_fst [OF None] by simp
    from Cons.IH [OF inv'] have
      "ring_inv (record_all ?b ts)" "ring_size (record_all ?b ts) = ring_size b"
      "resident (record_all ?b ts)
         = drop (length (resident ?b @ inserted_log ?b ts) - ring_size b)
             (resident ?b @ inserted_log ?b ts)"
      by (simp_all add: sz)
    moreover have "drop (length (resident ?b @ inserted_log ?b ts) - ring_size b)
             (resident ?b @ inserted_log ?b ts)
        = drop (length ((resident b @ [t]) @ inserted_log ?b ts) - ring_size b)
             ((resident b @ [t]) @ inserted_log ?b ts)"
      unfolding res by (rule drop_last_n_append)
    ultimately show ?thesis using ins by simp
  next
    case (Some e)
    then have "record_txn b t = ((False, e), b)" by (rule record_txn_hit)
    then show ?thesis using Cons.IH [OF Cons.prems] by simp
  qed
qed

lemma rev_last_n: "rev (drop (length xs - n) xs) = take n (rev xs)"
proof (cases "n \<le> length xs")
  case True
  then show ?thesis by (simp add: rev_drop)
next
  case False
  then show ?thesis by simp
qed

lemma listNewestFirst_resident: "listNewestFirst b = rev (resident b)"
  by (simp add: resident_def)

lemma inserted_log_distinct:
  "ring_inv b \<Longrightarrow> distinct (map txnId ts) \<Longrightarrow>
   txnId ` set ts \<inter> txnId ` set (resident b) = {} \<Longrightarrow> inserted_log b ts = ts"
proof (induction ts arbitrary: b)
  case Nil
  then show ?case by simp
next
  case (Cons t ts)
  let ?b = "snd (record_txn b t)"
  have miss: "lookup b (txnId t) = None"
    using Cons.prems by (simp add: ring_inv_lookup_None)
  have inv': "ring_inv ?b" using record_txn_miss_step [OF Cons.prems(1) miss] by simp
  have "set (resident ?b) \<subseteq> set (resident b @ [t])"
    unfolding record_txn_miss_resident [OF Cons.prems(1) miss] by (rule set_drop_subset)
  then have "txnId ` set (resident ?b) \<subseteq> insert (txnId t) (txnId ` set (resident b))"
    by auto
  moreover have "txnId ` set ts \<inter> insert (txnId t) (txnId ` set (resident b)) = {}"
    using Cons.prems(2,3) by auto
  ultimately have "txnId ` set ts \<inter> txnId ` set (resident ?b) = {}"
    by blast
  then have "inserted_log ?b ts = ts"
    using Cons.IH [OF inv'] Cons.prems(2) by simp
  then show ?case using record_txn_miss_fst [OF miss] by simp
qed

lemma new_default_ring:
  "new_ProcessedTxnBuffer DEFAULT_RING_SIZE = Inr b0 \<longleftrightarrow> b0 = empty_ring 64"
  by (auto simp: new_ProcessedTxnBuffer_def DEFAULT_RING_SIZE_def)

lemma ring_inv_dom_lookup: "ring_inv b \<Longrightarrow> dom (lookup b) = txnId ` set (resident b)"
  using ring_inv_lookup_None [of b] by (auto simp: dom_def)

lemma record_all_empty_ring:
  assumes "0 < n"
  shows "ring_inv (record_all (empty_ring n) ts)"
    and "ring_size (record_all (empty_ring n) ts) = n"
    and "listNewestFirst (record_all (empty_ring n) ts) = take n (rev (inserted_log (empty_ring n) ts))"
proof -
  have sz: "ring_size (empty_ring n) = n" by (simp add: empty_ring_def)
  note inv = record_all_inv [OF ring_inv_empty_ring [OF assms], of ts]
  from inv show "ring_inv (record_all (empty_ring n) ts)" by simp
  from inv show "ring_size (record_all (empty_ring n) ts) = n" by (simp only: sz)
  from inv have "resident (record_all (empty_ring n) ts)
      = drop (length (inserted_log (empty_ring n) ts) - n) (inserted_log (empty_ring n) ts)"
    by (simp only: resident_empty_ring sz append_Nil)
  then show "listNewestFirst (record_all (empty_ring n) ts)
      = take n (rev (inserted_log (empty_ring n) ts))"
    by (simp only: listNewestFirst_resident rev_last_n)
qed

lemma apply_processed_iff:
  "processed (fst (applyIdempotentTransaction bal p b now)) \<longleftrightarrow> lookup b (p_txnId p) = None"
  by (cases "lookup b (p_txnId p)") (simp_all add: apply_hit apply_miss)

lemma applyMany_inv:
  "ring_inv b \<Longrightarrow> applyMany bal b cs = (rs, bal', b') \<Longrightarrow>
     ring_inv b' \<and> ring_size b' = ring_size b \<and> length rs = length cs \<and>
     resident b' = drop (length (resident b @ map result_record (filter processed rs)) - ring_size b)
                     (resident b @ map result_record (filter processed rs)) \<and>
     bal' = bal + sum_list (map (\<lambda>r. delta (result_record r)) (filter processed rs))"
proof (induction cs arbitrary: bal b rs)
  case Nil
  then show ?case using ring_inv_length_resident [of b] by simp
next
  case (Cons c cs)
  obtain p now where c: "c = (p, now)" by (cases c)
  show ?case
  proof (cases "lookup b (p_txnId p)")
    case None
    let ?t = "candidate bal p now"
    let ?b = "snd (record_txn b ?t)"
    let ?r = "\<lparr>balance = bal + p_delta p, processed = True, result_record = ?t\<rparr>"
    have miss: "lookup b (txnId ?t) = None" using None by simp
    from record_txn_miss_step [OF Cons.prems(1) miss]
    have inv': "ring_inv ?b" and sz: "ring_size ?b = ring_size b" by simp_all
    have res: "resident ?b = drop (length (resident b @ [?t]) - ring_size b) (resident b @ [?t])"
      by (rule record_txn_miss_resident [OF Cons.prems(1) miss])
    obtain rs0 where rs: "rs = ?r # rs0" and rest: "applyMany (bal + p_delta p) ?b cs = (rs0, bal', b')"
      using Cons.prems(2) by (auto simp: c apply_miss [OF None] split: prod.splits)
    note IH = Cons.IH [OF inv' rest]
    have "drop (length (resident ?b @ map result_record (filter processed rs0)) - ring_size b)
             (resident ?b @ map result_record (filter processed rs0))
        = drop (length ((resident b @ [?t]) @ map result_record (filter processed rs0)) - ring_size b)
             ((resident b @ [?t]) @ map result_record (filter processed rs0))"
      unfolding res by (rule drop_last_n_append)
    then show ?thesis using IH by (simp add: rs sz)
  next
    case (Some e)
    let ?r = "\<lparr>balance = bal, processed = False, result_record = e\<rparr>"
    obtain rs0 where rs: "rs = ?r # rs0" and rest: "applyMany bal b cs = (rs0, bal', b')"
      using Cons.prems(2) by (auto simp: c apply_hit [OF Some] split: prod.splits)
    show ?thesis using Cons.IH [OF Cons.prems(1) rest] by (simp add: rs)
  qed
qed

lemma applyMany_fresh:
  "ring_inv b \<Longrightarrow> distinct (map (\<lambda>c. p_txnId (fst c)) cs) \<Longrightarrow>
   (\<lambda>c. p_txnId (fst c)) ` set cs \<inter> txnId ` set (resident b) = {} \<Longrightarrow>
   applyMany bal b cs = (rs, bal', b') \<Longrightarrow>
     list_all processed rs \<and> map (\<lambda>r. txnId (result_record r)) rs = map (\<lambda>c. p_txnId (fst c)) cs
     \<and> map (\<lambda>r. delta (result_record r)) rs = map (\<lambda>c. p_delta (fst c)) cs"
proof (induction cs arbitrary: bal b rs)
  case Nil
  then show ?case by simp
next
  case (Cons c cs)
  obtain p now where c: "c = (p, now)" by (cases c)
  let ?t = "candidate bal p now"
  let ?b = "snd (record_txn b ?t)"
  let ?r = "\<lparr>balance = bal + p_delta p, processed = True, result_record = ?t\<rparr>"
  have None: "lookup b (p_txnId p) = None"
    using Cons.prems(1,3) by (simp add: ring_inv_lookup_None c)
  have miss: "lookup b (txnId ?t) = None" using None by simp
  have inv': "ring_inv ?b" using record_txn_miss_step [OF Cons.prems(1) miss] by simp
  have "set (resident ?b) \<subseteq> set (resident b @ [?t])"
    unfolding record_txn_miss_resident [OF Cons.prems(1) miss] by (rule set_drop_subset)
  then have "txnId ` set (resident ?b) \<subseteq> insert (p_txnId p) (txnId ` set (resident b))"
    by auto
  moreover have "(\<lambda>c. p_txnId (fst c)) ` set cs \<inter> insert (p_txnId p) (txnId ` set (resident b)) = {}"
    using Cons.prems(2,3) by (auto simp: c)
  ultimately have disj: "(\<lambda>c. p_txnId (fst c)) ` set cs \<inter> txnId ` set (resident ?b) = {}"
    by blast
  have dist: "distinct (map (\<lambda>c. p_txnId (fst c)) cs)" using Cons.prems(2) by simp
  obtain rs0 where rs: "rs = ?r # rs0" and rest: "applyMany (bal + p_delta p) ?b cs = (rs0, bal', b')"
    using Cons.prems(4) by (auto simp: c apply_miss [OF None] split: prod.splits)
  show ?case using Cons.IH [OF inv' dist disj rest] by (simp add: rs c)
qed

lemma sum_list_all_ones:
  "list_all (\<lambda>c. f c = (1::int)) cs \<Longrightarrow> sum_list (map f cs) = int (length cs)"
  by (induction cs) simp_all

lemma filter_list_all: "list_all P xs \<Longrightarrow> filter P xs = xs"
  by (induction xs) simp_all

lemma eviction_run:
  assumes len: "length cs = 65"
    and dist: "distinct (map (\<lambda>c. p_txnId (fst c)) cs)"
    and ones: "list_all (\<lambda>c. p_delta (fst c) = 1) cs"
    and run: "applyMany 0 (empty_ring 64) cs = (rs, bal, b)"
  shows "bal = 65" and "list_all processed rs" and "ring_inv b" and "ring_size b = 64"
    and "map txnId (resident b) = map (\<lambda>c. p_txnId (fst c)) (tl cs)"
proof -
  have inv0: "ring_inv (empty_ring 64)" by (simp add: ring_inv_empty_ring)
  have sz0: "ring_size (empty_ring 64) = 64" by (simp add: empty_ring_def)
  have fresh: "list_all processed rs \<and>
      map (\<lambda>r. txnId (result_record r)) rs = map (\<lambda>c. p_txnId (fst c)) cs \<and>
      map (\<lambda>r. delta (result_record r)) rs = map (\<lambda>c. p_delta (fst c)) cs"
    by (rule applyMany_fresh [OF inv0 dist _ run]) (simp add: resident_empty_ring)
  then have all: "filter processed rs = rs" by (simp add: filter_list_all)
  note inv = applyMany_inv [OF inv0 run, unfolded all resident_empty_ring sz0 append_Nil]
  from fresh show "list_all processed rs" by simp
  from inv show "ring_inv b" and "ring_size b = 64" by simp_all
  have "bal = sum_list (map (\<lambda>c. p_delta (fst c)) cs)"
    using inv fresh by (simp add: comp_def)
  then show "bal = 65" using sum_list_all_ones [OF ones] len by simp
  have lrs: "length rs = 65" using inv len by simp
  have "map txnId (resident b) = drop 1 (map (\<lambda>r. txnId (result_record r)) rs)"
    using inv lrs by (simp add: drop_map)
  then show "map txnId (resident b) = map (\<lambda>c. p_txnId (fst c)) (tl cs)"
    using fresh by (simp add: drop_Suc map_tl)
qed

lemma eviction_replay:
  assumes len: "length cs = 65"
    and dist: "distinct (map (\<lambda>c. p_txnId (fst c)) cs)"
    and inv: "ring_inv b" and sz: "ring_size b = 64"
    and res: "map txnId (resident b) = map (\<lambda>c. p_txnId (fst c)) (tl cs)"
    and replay: "applyIdempotentTransaction bal (fst (hd cs)) b now = (r, b2)"
  shows "processed r" and "balance r = bal + p_delta (fst (hd cs))" and "ring_inv b2"
    and "map txnId (resident b2)
           = map (\<lambda>c. p_txnId (fst c)) (drop 2 cs) @ [p_txnId (fst (hd cs))]"
proof -
  obtain c1 c2 cs' where cs: "cs = c1 # c2 # cs'"
    using len by (cases cs; cases "tl cs") auto
  let ?p = "fst (hd cs)"
  let ?t = "candidate bal ?p now"
  have "p_txnId ?p \<notin> txnId ` set (resident b)"
    using dist res cs by (metis (no_types, lifting) distinct.simps(2) list.sel(1,3) list.simps(9) set_map)
  then have None: "lookup b (p_txnId ?p) = None"
    using inv by (simp add: ring_inv_lookup_None)
  have miss: "lookup b (txnId ?t) = None" using None by simp
  from replay have r: "r = \<lparr>balance = bal + p_delta ?p, processed = True, result_record = ?t\<rparr>"
    and b2: "b2 = snd (record_txn b ?t)"
    by (simp_all add: apply_miss [OF None])
  show "processed r" and "balance r = bal + p_delta (fst (hd cs))" by (simp_all add: r)
  show "ring_inv b2" unfolding b2 using record_txn_miss_step [OF inv miss] by simp
  have lres: "length (resident b) = 64"
    using arg_cong [OF res, of length] len by simp
  have "resident b2 = tl (resident b) @ [?t]"
    unfolding b2 using record_txn_miss_step [OF inv miss] lres sz by simp
  then show "map txnId (resident b2)
           = map (\<lambda>c. p_txnId (fst c)) (drop 2 cs) @ [p_txnId (fst (hd cs))]"
    using res by (simp add: map_tl cs)
qed

lemma S3_txnIds_distinct: "distinct S3_txnIds"
  unfolding S3_txnIds_def by simp

lemma S3_txnIds_length: "length S3_txnIds = 65"
  unfolding S3_txnIds_def by simp

lemma S3_calls_txnIds: "map (\<lambda>c. p_txnId (fst c)) S3_calls = S3_txnIds"
  by (simp add: S3_calls_def credit_one_def comp_def)

lemma S3_calls_ones: "list_all (\<lambda>c. p_delta (fst c) = 1) S3_calls"
  by (simp add: S3_calls_def credit_one_def list_all_iff)

section \<open>The claims about the ring and the applier\<close>

text \<open>
  Claim C1 (idempotence). For every balance, every buffer and every two parameter objects
  with the same transaction id: applying the first and then, on the balance and buffer it
  left, the second, the second call reports \<open>processed = false\<close>, returns the balance of
  the first call and the record the first call returned, and leaves the buffer as the
  first call left it.
\<close>

theorem apply_twice_same_txnId:
  assumes "p_txnId q = p_txnId p"
  shows "(case applyIdempotentTransaction bal p b now1 of (r1, b1) \<Rightarrow>
           (case applyIdempotentTransaction (balance r1) q b1 now2 of (r2, b2) \<Rightarrow>
              balance r2 = balance r1 \<and> b2 = b1 \<and> processed r2 = False
              \<and> result_record r2 = result_record r1))"
proof (cases "lookup b (p_txnId p)")
  case None
  have "lookup (snd (record_txn b (candidate bal p now1))) (p_txnId q)
          = Some (candidate bal p now1)"
    using record_txn_miss_lookup [of b "candidate bal p now1"] None assms by simp
  then show ?thesis
    using None by (simp add: apply_miss apply_hit)
next
  case (Some e)
  then show ?thesis
    using assms by (simp add: apply_hit)
qed

theorem apply_twice_same_txnId_witness:
  "p_txnId (fst (credit_one ''A'')\<lparr>p_delta := 10\<rparr>) = p_txnId (fst (credit_one ''A''))
   \<and> (case applyIdempotentTransaction 0 (fst (credit_one ''A'')) (empty_ring 64) 1000 of (r1, b1) \<Rightarrow>
        (case applyIdempotentTransaction (balance r1) (fst (credit_one ''A'')\<lparr>p_delta := 10\<rparr>) b1 2000
           of (r2, b2) \<Rightarrow>
              balance r2 = balance r1 \<and> b2 = b1 \<and> processed r2 = False
              \<and> result_record r2 = result_record r1))"
proof -
  have h: "p_txnId (fst (credit_one ''A'')\<lparr>p_delta := 10\<rparr>) = p_txnId (fst (credit_one ''A''))"
    by (simp add: credit_one_def)
  from h apply_twice_same_txnId [OF h, where bal = 0 and b = "empty_ring 64"
      and ?now1.0 = 1000 and ?now2.0 = 2000]
  show ?thesis by (rule conjI)
qed




text \<open>
  Claim C3 (ring bound and FIFO eviction). For every sequence of \<open>record\<close> calls on a
  buffer constructed with the default capacity 64: at most 64 records are stored (in the
  slots as listed by \<open>listNewestFirst\<close>, and in the index), the stored ids are pairwise
  different and are the keys of the index, and the stored records are the latest 64
  inserted ones, newest first. When all ids of the sequence are different, every record
  is inserted, so the buffer holds the latest 64 records of the sequence: the 65th
  distinct id evicts the first one.
\<close>

theorem ring_bound_and_fifo:
  assumes "new_ProcessedTxnBuffer DEFAULT_RING_SIZE = Inr b0"
  shows "length (listNewestFirst (record_all b0 ts)) \<le> 64
       \<and> card (dom (lookup (record_all b0 ts))) \<le> 64
       \<and> dom (lookup (record_all b0 ts)) = txnId ` set (listNewestFirst (record_all b0 ts))
       \<and> distinct (map txnId (listNewestFirst (record_all b0 ts)))
       \<and> listNewestFirst (record_all b0 ts) = take 64 (rev (inserted_log b0 ts))
       \<and> (distinct (map txnId ts) \<longrightarrow> listNewestFirst (record_all b0 ts) = take 64 (rev ts))"
proof -
  let ?b = "record_all b0 ts"
  have b0: "b0 = empty_ring 64" using assms by (simp add: new_default_ring)
  have inv: "ring_inv ?b" and sz: "ring_size ?b = 64"
    and fifo: "listNewestFirst ?b = take 64 (rev (inserted_log b0 ts))"
    unfolding b0 by (rule record_all_empty_ring, simp)+
  have len: "length (listNewestFirst ?b) \<le> 64" by (simp add: fifo)
  have dom: "dom (lookup ?b) = txnId ` set (listNewestFirst ?b)"
    using ring_inv_dom_lookup [OF inv] by (simp add: listNewestFirst_resident)
  have dist: "distinct (map txnId (listNewestFirst ?b))"
    using inv by (simp add: ring_inv_def listNewestFirst_resident rev_map [symmetric])
  have "card (dom (lookup ?b)) \<le> length (listNewestFirst ?b)"
    unfolding dom by (metis card_length length_map set_map)
  then have card: "card (dom (lookup ?b)) \<le> 64" using len by simp
  have "inserted_log b0 ts = ts" if "distinct (map txnId ts)"
    unfolding b0 using that
    by (intro inserted_log_distinct) (simp_all add: ring_inv_empty_ring resident_empty_ring)
  then have all_new: "distinct (map txnId ts) \<longrightarrow> listNewestFirst ?b = take 64 (rev ts)"
    by (simp add: fifo)
  from len card dom dist fifo all_new show ?thesis by blast
qed

theorem ring_bound_and_fifo_witness:
  "new_ProcessedTxnBuffer DEFAULT_RING_SIZE = Inr (empty_ring 64)
   \<and> distinct (map txnId (map (\<lambda>c. candidate 0 (fst c) (snd c)) S3_calls))
   \<and> length (map (\<lambda>c. candidate 0 (fst c) (snd c)) S3_calls) = 65
   \<and> length (listNewestFirst
         (record_all (empty_ring 64) (map (\<lambda>c. candidate 0 (fst c) (snd c)) S3_calls))) \<le> 64
   \<and> listNewestFirst (record_all (empty_ring 64) (map (\<lambda>c. candidate 0 (fst c) (snd c)) S3_calls))
       = take 64 (rev (map (\<lambda>c. candidate 0 (fst c) (snd c)) S3_calls))"
proof -
  let ?ts = "map (\<lambda>c. candidate 0 (fst c) (snd c)) S3_calls"
  have new: "new_ProcessedTxnBuffer DEFAULT_RING_SIZE = Inr (empty_ring 64)"
    by (simp add: new_default_ring)
  have ids: "map txnId ?ts = S3_txnIds"
    using S3_calls_txnIds by (simp add: comp_def)
  have dist: "distinct (map txnId ?ts)"
    unfolding ids by (rule S3_txnIds_distinct)
  have len: "length ?ts = 65"
    using arg_cong [OF ids, of length] S3_txnIds_length by simp
  from ring_bound_and_fifo [OF new, of ?ts] new dist len show ?thesis by blast
qed

text \<open>
  Claim C4 (scenario S3). From balance 0 and a new ring of the default capacity, 65 calls
  with pairwise different ids and delta 1 are all processed and give balance 65; the ring
  then holds exactly the ids of the last 64 calls (the first id is gone). Applying the
  first call again is processed: the balance becomes 66, the first id is back as the
  newest record and the second id is gone.
\<close>

theorem scenario_ring_eviction:
  assumes "new_ProcessedTxnBuffer DEFAULT_RING_SIZE = Inr b0"
    and "length cs = 65"
    and "distinct (map (\<lambda>c. p_txnId (fst c)) cs)"
    and "list_all (\<lambda>c. p_delta (fst c) = 1) cs"
  shows "(case applyMany 0 b0 cs of (rs, bal, b) \<Rightarrow>
            bal = 65 \<and> list_all processed rs
            \<and> map txnId (listNewestFirst b) = rev (map (\<lambda>c. p_txnId (fst c)) (tl cs))
            \<and> dom (lookup b) = set (map (\<lambda>c. p_txnId (fst c)) (tl cs))
            \<and> lookup b (p_txnId (fst (hd cs))) = None
            \<and> (case applyIdempotentTransaction bal (fst (hd cs)) b now of (r, b2) \<Rightarrow>
                  processed r \<and> balance r = 66
                  \<and> map txnId (listNewestFirst b2)
                      = p_txnId (fst (hd cs)) # rev (map (\<lambda>c. p_txnId (fst c)) (drop 2 cs))
                  \<and> dom (lookup b2)
                      = insert (p_txnId (fst (hd cs))) (set (map (\<lambda>c. p_txnId (fst c)) (drop 2 cs)))
                  \<and> lookup b2 (p_txnId (fst (hd (tl cs)))) = None))"
proof -
  have b0: "b0 = empty_ring 64" using assms(1) by (simp add: new_default_ring)
  obtain rs bal b where run: "applyMany 0 (empty_ring 64) cs = (rs, bal, b)"
    by (cases "applyMany 0 (empty_ring 64) cs") auto
  obtain r b2 where replay: "applyIdempotentTransaction bal (fst (hd cs)) b now = (r, b2)"
    by (cases "applyIdempotentTransaction bal (fst (hd cs)) b now") auto
  note A = eviction_run [OF assms(2,3,4) run]
  note B = eviction_replay [OF assms(2,3) A(3,4,5) replay]
  obtain c1 c2 cs' where cs: "cs = c1 # c2 # cs'"
    using assms(2) by (cases cs; cases "tl cs") auto
  have ids: "map txnId (listNewestFirst b) = rev (map (\<lambda>c. p_txnId (fst c)) (tl cs))"
    using arg_cong [OF A(5), of rev] by (simp add: listNewestFirst_resident rev_map)
  have dom: "dom (lookup b) = set (map (\<lambda>c. p_txnId (fst c)) (tl cs))"
    using ring_inv_dom_lookup [OF A(3)] A(5) by (metis set_map)
  have "p_txnId (fst (hd cs)) \<notin> dom (lookup b)"
    unfolding dom using assms(3) cs by auto
  then have gone1: "lookup b (p_txnId (fst (hd cs))) = None"
    by (simp add: domIff)
  have ids2: "map txnId (listNewestFirst b2)
      = p_txnId (fst (hd cs)) # rev (map (\<lambda>c. p_txnId (fst c)) (drop 2 cs))"
    using arg_cong [OF B(4), of rev] by (simp add: listNewestFirst_resident rev_map)
  have dom2: "dom (lookup b2)
      = insert (p_txnId (fst (hd cs))) (set (map (\<lambda>c. p_txnId (fst c)) (drop 2 cs)))"
    using ring_inv_dom_lookup [OF B(3)] B(4) by (metis Un_insert_right append_Nil2 list.simps(15) set_append set_map)
  have "p_txnId (fst (hd (tl cs))) \<notin> dom (lookup b2)"
    unfolding dom2 using assms(3) cs by auto
  then have gone2: "lookup b2 (p_txnId (fst (hd (tl cs)))) = None"
    by (simp add: domIff)
  have bal66: "balance r = 66" using B(2) A(1) assms(4) cs by simp
  show ?thesis
    using A(1,2) ids dom gone1 B(1) bal66 ids2 dom2 gone2 replay by (simp add: b0 run)
qed


theorem scenario_ring_eviction_witness:
  "new_ProcessedTxnBuffer DEFAULT_RING_SIZE = Inr (empty_ring 64)
   \<and> length S3_calls = 65
   \<and> distinct (map (\<lambda>c. p_txnId (fst c)) S3_calls)
   \<and> list_all (\<lambda>c. p_delta (fst c) = 1) S3_calls
   \<and> (case applyMany 0 (empty_ring 64) S3_calls of (rs, bal, b) \<Rightarrow>
            bal = 65 \<and> list_all processed rs
            \<and> map txnId (listNewestFirst b) = rev (map (\<lambda>c. p_txnId (fst c)) (tl S3_calls))
            \<and> dom (lookup b) = set (map (\<lambda>c. p_txnId (fst c)) (tl S3_calls))
            \<and> lookup b (p_txnId (fst (hd S3_calls))) = None
            \<and> (case applyIdempotentTransaction bal (fst (hd S3_calls)) b 0 of (r, b2) \<Rightarrow>
                  processed r \<and> balance r = 66
                  \<and> map txnId (listNewestFirst b2)
                      = p_txnId (fst (hd S3_calls))
                          # rev (map (\<lambda>c. p_txnId (fst c)) (drop 2 S3_calls))
                  \<and> dom (lookup b2)
                      = insert (p_txnId (fst (hd S3_calls)))
                          (set (map (\<lambda>c. p_txnId (fst c)) (drop 2 S3_calls)))
                  \<and> lookup b2 (p_txnId (fst (hd (tl S3_calls)))) = None))"
proof -
  have new: "new_ProcessedTxnBuffer DEFAULT_RING_SIZE = Inr (empty_ring 64)"
    by (simp add: new_default_ring)
  have len: "length S3_calls = 65"
    using arg_cong [OF S3_calls_txnIds, of length] S3_txnIds_length by simp
  have dist: "distinct (map (\<lambda>c. p_txnId (fst c)) S3_calls)"
    unfolding S3_calls_txnIds by (rule S3_txnIds_distinct)
  note ones = S3_calls_ones
  from scenario_ring_eviction [OF new len dist ones, of 0] new len dist ones
  show ?thesis by (intro conjI)
qed

section \<open>Properties of the audit service\<close>

subsection \<open>Signature verification\<close>

lemma hex_digit_lower_hex: "lower_hex_unit d \<Longrightarrow> \<exists>v. hex_digit d = Some v"
  by (auto simp: hex_digit_def lower_hex_unit_def Let_def)

lemma hex_digit_less_16: "hex_digit c = Some v \<Longrightarrow> v < 16"
  by (auto simp: hex_digit_def Let_def split: if_splits)

text \<open>A code unit below 256 that is no capital letter decodes like a lower-case
  hexadecimal digit only when it is that digit.\<close>

lemma hex_digit_inj_lower:
  assumes "c < 256" and "\<not> (65 \<le> c \<and> c \<le> 70)" and "lower_hex_unit d"
    and "hex_digit c = hex_digit d"
  shows "c = d"
proof -
  have d: "(48 \<le> d \<and> d \<le> 57) \<or> (97 \<le> d \<and> d \<le> 102)"
    using assms(3) by (simp add: lower_hex_unit_def)
  then have dm: "d mod 256 = d" by auto
  have cm: "c mod 256 = c" using assms(1) by simp
  show ?thesis
    using assms(2,4) d unfolding hex_digit_def Let_def cm dm
    by (auto split: if_splits)
qed

lemma buffer_from_hex_inj:
  "length n = length e \<Longrightarrow> even (length e) \<Longrightarrow> list_all lower_hex_unit e \<Longrightarrow>
   list_all (\<lambda>u. u < 256 \<and> \<not> (65 \<le> u \<and> u \<le> 70)) n \<Longrightarrow>
   buffer_from_hex n = buffer_from_hex e \<Longrightarrow> n = e"
proof (induction e arbitrary: n rule: buffer_from_hex.induct)
  case (1 a b rest)
  then obtain c d n' where n: "n = c # d # n'" and len: "length n' = length rest"
    by (cases n; cases "tl n") auto
  obtain x y where x: "hex_digit a = Some x" and y: "hex_digit b = Some y"
    using "1.prems"(3) hex_digit_lower_hex [of a] hex_digit_lower_hex [of b] by auto
  from "1.prems"(5) obtain x' y' where
    x': "hex_digit c = Some x'" and y': "hex_digit d = Some y'"
    and val: "16 * x' + y' = 16 * x + y"
    and rest: "buffer_from_hex n' = buffer_from_hex rest"
    by (auto simp: n x y split: option.splits)
  have bnd1: "y' < 16" and bnd2: "y < 16"
    using y y' by (auto dest: hex_digit_less_16)
  have "(16 * x' + y') div 16 = x'" and "(16 * x + y) div 16 = x"
    using bnd1 bnd2 by simp_all
  then have xx: "x' = x" using val by simp
  then have yy: "y' = y" using val by simp
  have la: "lower_hex_unit a" and lb: "lower_hex_unit b" using "1.prems"(3) by simp_all
  have lc: "c < 256" "\<not> (65 \<le> c \<and> c \<le> 70)" and ld: "d < 256" "\<not> (65 \<le> d \<and> d \<le> 70)"
    using "1.prems"(4) by (simp_all add: n)
  have "c = a"
    by (rule hex_digit_inj_lower [OF lc la]) (simp add: x x' xx)
  moreover have "d = b"
    by (rule hex_digit_inj_lower [OF ld lb]) (simp add: y y' yy)
  moreover have "n' = rest"
    using "1.IH" [OF x y len _ _ _ rest] "1.prems"(2,3,4) by (simp add: n)
  ultimately show ?case by (simp add: n)
next
  case (2 a)
  then show ?case by simp
next
  case 3
  then show ?case by simp
qed

text \<open>
  What \<open>verifySignature\<close> computes for a signature that is a string: it compares the bytes
  decoded from the signature in lower case with the bytes decoded from the HMAC of the
  serialized payload, after comparing the lengths of the two strings. It throws nothing.
\<close>

lemma verifySignature_string:
  "verifySignature env payload (Some (JString sig))
     = Inr (sig \<noteq> []
            \<and> length (toLowerCase env sig)
                = length (hmac_sha256_hex env (HMAC_SECRET env) (JSON_stringify env payload))
            \<and> buffer_from_hex (toLowerCase env sig)
                = buffer_from_hex
                    (hmac_sha256_hex env (HMAC_SECRET env) (JSON_stringify env payload)))"
  by (auto simp: verifySignature_def verifySignature_try_def timingSafeEqual_def Let_def)

lemma verifySignature_absent: "verifySignature env payload None = Inr False"
  by (simp add: verifySignature_def)

lemma verifySignature_falsy: "\<not> truthy v \<Longrightarrow> verifySignature env payload (Some v) = Inr False"
  by (simp add: verifySignature_def)

text \<open>A signature that is truthy and not a string makes \<open>verifySignature\<close> throw.\<close>

lemma verifySignature_not_string:
  "truthy v \<Longrightarrow> \<not> is_string v \<Longrightarrow> verifySignature env payload (Some v) = Inl TypeError"
  by (cases v) (simp_all add: verifySignature_def Let_def)

lemma verifySignature_returns:
  "string_or_falsy signature \<Longrightarrow> \<exists>valid. verifySignature env payload signature = Inr valid"
proof (cases signature)
  case None
  then show ?thesis by (auto simp: verifySignature_absent)
next
  case (Some v)
  assume "string_or_falsy signature"
  then consider "\<not> truthy v" | s where "v = JString s"
    using Some by (cases v) (auto simp: string_or_falsy_def)
  then show ?thesis
  proof cases
    case 1
    then show ?thesis by (auto simp: Some verifySignature_falsy)
  next
    case 2
    then show ?thesis by (auto simp: Some verifySignature_string)
  qed
qed

text \<open>
  For a signature whose lower-case form has code units below 256 only and no capital
  letter \<open>A\<close>..\<open>F\<close> (every signature sent in the header \<open>X-Signature\<close> is of this kind),
  and an HMAC that is a hexadecimal digest, the comparison of the decoded bytes is the
  comparison of the strings.
\<close>

lemma verifySignature_latin1:
  assumes "hex_digest (hmac_sha256_hex env (HMAC_SECRET env) (JSON_stringify env payload))"
    and "list_all (\<lambda>u. u < 256 \<and> \<not> (65 \<le> u \<and> u \<le> 70)) (toLowerCase env sig)"
    and "sig \<noteq> []"
  shows "verifySignature env payload (Some (JString sig))
           = Inr (toLowerCase env sig
                    = hmac_sha256_hex env (HMAC_SECRET env) (JSON_stringify env payload))"
proof -
  let ?e = "hmac_sha256_hex env (HMAC_SECRET env) (JSON_stringify env payload)"
  let ?n = "toLowerCase env sig"
  have len: "length ?e = 64" and hex: "list_all lower_hex_unit ?e"
    using assms(1) by (simp_all add: hex_digest_def)
  have "length ?n = length ?e \<and> buffer_from_hex ?n = buffer_from_hex ?e \<longleftrightarrow> ?n = ?e"
  proof
    assume a: "length ?n = length ?e \<and> buffer_from_hex ?n = buffer_from_hex ?e"
    have ev: "even (length ?e)" by (simp add: len)
    from a have l: "length ?n = length ?e" and b: "buffer_from_hex ?n = buffer_from_hex ?e"
      by simp_all
    show "?n = ?e" by (rule buffer_from_hex_inj [OF l ev hex assms(2) b])
  next
    assume "?n = ?e"
    then show "length ?n = length ?e \<and> buffer_from_hex ?n = buffer_from_hex ?e" by simp
  qed
  then show ?thesis using assms(3) by (simp add: verifySignature_string)
qed

lemma sample_hmac_A:
  "hmac_sha256_hex sample_env (HMAC_SECRET sample_env)
     (JSON_stringify sample_env (sample_event ''A'')) = sample_digest"
  by (simp add: sample_env_def sample_stringify_def sample_event_def js_get_def code_units_def)

lemma sample_hmac_B:
  "hmac_sha256_hex sample_env (HMAC_SECRET sample_env)
     (JSON_stringify sample_env (sample_event ''B'')) = other_digest"
  by (simp add: sample_env_def sample_stringify_def sample_event_def js_get_def code_units_def)

lemma sample_digest_hex: "hex_digest sample_digest"
  by (simp add: hex_digest_def sample_digest_def lower_hex_unit_def code_units_def)

lemma sample_signature_A:
  "verifySignature sample_env (sample_event ''A'') (Some (JString sample_digest)) = Inr True"
proof -
  have "toLowerCase sample_env sample_digest = sample_digest"
    by (simp add: sample_env_def ascii_lower_def sample_digest_def code_units_def)
  moreover have "sample_digest \<noteq> []" by (simp add: sample_digest_def code_units_def)
  ultimately show ?thesis by (simp add: verifySignature_string sample_hmac_A)
qed

lemma sample_signature_B:
  "verifySignature sample_env (sample_event ''B'') (Some (JString other_digest)) = Inr True"
proof -
  have "toLowerCase sample_env other_digest = other_digest"
    by (simp add: sample_env_def ascii_lower_def other_digest_def code_units_def)
  moreover have "other_digest \<noteq> []" by (simp add: other_digest_def code_units_def)
  ultimately show ?thesis by (simp add: verifySignature_string sample_hmac_B)
qed

lemma sample_signature_upper:
  "verifySignature sample_env (sample_event ''A'')
     (Some (JString
        (code_units ''0123456789ABCDEF0123456789ABCDEF0123456789ABCDEF0123456789ABCDEF'')))
     = Inr True"
proof -
  have "toLowerCase sample_env
          (code_units ''0123456789ABCDEF0123456789ABCDEF0123456789ABCDEF0123456789ABCDEF'')
        = sample_digest"
    by (simp add: sample_env_def ascii_lower_def sample_digest_def code_units_def)
  moreover have "sample_digest \<noteq> []" by (simp add: sample_digest_def code_units_def)
  ultimately show ?thesis
    by (simp add: verifySignature_string sample_hmac_A code_units_def)
qed

text \<open>A signature of the right length with a letter that is no hexadecimal digit is
  rejected; the comparison inside the \<open>try\<close> block throws for it.\<close>

lemma sample_signature_not_hex:
  "verifySignature sample_env (sample_event ''A'')
     (Some (JString
        (code_units ''0123456789abcdeg0123456789abcdef0123456789abcdef0123456789abcdef'')))
     = Inr False
   \<and> verifySignature_try
        (code_units ''0123456789abcdeg0123456789abcdef0123456789abcdef0123456789abcdef'')
        sample_digest = Inl RangeError"
proof -
  let ?s = "code_units ''0123456789abcdeg0123456789abcdef0123456789abcdef0123456789abcdef''"
  have lower: "toLowerCase sample_env ?s = ?s"
    by (simp add: sample_env_def ascii_lower_def code_units_def)
  have hex: "hex_digest (hmac_sha256_hex sample_env (HMAC_SECRET sample_env)
      (JSON_stringify sample_env (sample_event ''A'')))"
    unfolding sample_hmac_A by (rule sample_digest_hex)
  have latin1: "list_all (\<lambda>u. u < 256 \<and> \<not> (65 \<le> u \<and> u \<le> 70)) (toLowerCase sample_env ?s)"
    unfolding lower by (simp add: code_units_def)
  have ne: "?s \<noteq> []" by (simp add: code_units_def)
  have differs: "?s \<noteq> sample_digest" by (simp add: sample_digest_def code_units_def)
  have "verifySignature sample_env (sample_event ''A'') (Some (JString ?s)) = Inr False"
    using verifySignature_latin1 [OF hex latin1 ne] differs by (simp add: lower sample_hmac_A)
  moreover have "verifySignature_try ?s sample_digest = Inl RangeError"
    by (simp add: verifySignature_try_def timingSafeEqual_def sample_digest_def code_units_def
          hex_digit_def)
  ultimately show ?thesis by simp
qed

lemma low_byte_signature_lower:
  "toLowerCase sample_env low_byte_signature = low_byte_signature"
  by (simp add: sample_env_def ascii_lower_def low_byte_signature_def code_units_def)

lemma low_byte_signature_decodes:
  "buffer_from_hex low_byte_signature = buffer_from_hex sample_digest"
  by (simp add: low_byte_signature_def sample_digest_def code_units_def hex_digit_def)

text \<open>
  Claim C10 (signature verification). The claim has \<open>verifySignature\<close> return true
  exactly when the signature in lower case is the hexadecimal HMAC of the serialized
  payload. The function compares the bytes that \<open>Buffer.from(s, "hex")\<close> decodes from the
  two strings, and the decoder reads the low byte of a code unit only. For the sample
  payload, whose HMAC is the sample digest, the signature that has the code unit \<open>0x0135\<close>
  in the place of the digit 5 of the digest is as long as the digest, is its own lower
  case and differs from the digest; \<open>verifySignature\<close> returns true for it, and the
  handler accepts a request that carries it in the body.
\<close>

theorem verifySignature_low_byte_accepted:
  "hmac_sha256_hex sample_env (HMAC_SECRET sample_env)
      (JSON_stringify sample_env (sample_event ''A'')) = sample_digest
   \<and> toLowerCase sample_env low_byte_signature \<noteq> sample_digest
   \<and> verifySignature sample_env (sample_event ''A'') (Some (JString low_byte_signature))
       = Inr True
   \<and> fst (post_log_transactions sample_env
            ((bare_request (sample_event ''A''))
               \<lparr>header_idempotencyKey := Some (code_units ''k1''),
                body_signature := Some (JString low_byte_signature)\<rparr>)
            empty_database)
       = \<lparr>http_status = 200, http_body = LogResponse True False\<rparr>"
proof -
  have ne: "low_byte_signature \<noteq> sample_digest"
    by (simp add: low_byte_signature_def sample_digest_def code_units_def)
  have nonempty: "low_byte_signature \<noteq> []" by (simp add: low_byte_signature_def)
  have len: "length low_byte_signature = length sample_digest"
    by (simp add: low_byte_signature_def sample_digest_def code_units_def)
  have accepted: "verifySignature sample_env (sample_event ''A'')
      (Some (JString low_byte_signature)) = Inr True"
    using nonempty len
    by (simp add: verifySignature_string sample_hmac_A low_byte_signature_lower
          low_byte_signature_decodes)
  have "fst (post_log_transactions sample_env
            ((bare_request (sample_event ''A''))
               \<lparr>header_idempotencyKey := Some (code_units ''k1''),
                body_signature := Some (JString low_byte_signature)\<rparr>)
            empty_database)
       = \<lparr>http_status = 200, http_body = LogResponse True False\<rparr>"
    using accepted
    by (simp add: post_log_transactions_def bare_request_def request_signature_def
          request_idempotencyKey_def nullish_def sample_event_def
          log_transaction_body_def webhookDelivery_create_def auditLog_upsert_def
          audit_row_def js_get_def empty_database_def sample_env_def code_units_def)
  with ne accepted show ?thesis
    by (simp add: sample_hmac_A low_byte_signature_lower)
qed

subsection \<open>The handler\<close>

lemma nullish_simps [simp]: "nullish (Some x) b = Some x" "nullish None b = b"
  by (simp_all add: nullish_def)

lemma post_no_payload:
  "body_payload req = None \<or> (\<exists>p. body_payload req = Some p \<and> \<not> truthy p) \<Longrightarrow>
   post_log_transactions env req db
     = (\<lparr>http_status = 400, http_body = ErrorBody ''payload is required''\<rparr>, db)"
  by (auto simp: post_log_transactions_def)

lemma post_signature_throws:
  "body_payload req = Some payload \<Longrightarrow> truthy payload \<Longrightarrow>
   verifySignature env payload (request_signature req) = Inl err \<Longrightarrow>
   post_log_transactions env req db
     = (\<lparr>http_status = 500, http_body = ErrorBody ''internal_error''\<rparr>, db)"
  by (simp add: post_log_transactions_def error_middleware_def)

lemma post_bad_signature:
  "body_payload req = Some payload \<Longrightarrow> truthy payload \<Longrightarrow>
   verifySignature env payload (request_signature req) = Inr False \<Longrightarrow>
   post_log_transactions env req db
     = (\<lparr>http_status = 401, http_body = ErrorBody ''invalid signature''\<rparr>, db)"
  by (simp add: post_log_transactions_def)

lemma post_no_key:
  "body_payload req = Some payload \<Longrightarrow> truthy payload \<Longrightarrow>
   verifySignature env payload (request_signature req) = Inr True \<Longrightarrow>
   request_idempotencyKey req = None
     \<or> (\<exists>k. request_idempotencyKey req = Some k \<and> \<not> truthy k) \<Longrightarrow>
   post_log_transactions env req db
     = (\<lparr>http_status = 400, http_body = ErrorBody ''Idempotency-Key header required''\<rparr>, db)"
  by (auto simp: post_log_transactions_def)

lemma post_checked:
  "body_payload req = Some payload \<Longrightarrow> truthy payload \<Longrightarrow>
   verifySignature env payload (request_signature req) = Inr True \<Longrightarrow>
   request_idempotencyKey req = Some k \<Longrightarrow> truthy k \<Longrightarrow>
   post_log_transactions env req db
     = (case log_transaction_body env db k (hashPayload env payload) payload of
          Inl err \<Rightarrow> (error_middleware err, db)
        | Inr (result, db') \<Rightarrow> (\<lparr>http_status = 200, http_body = result\<rparr>, db'))"
  by (simp add: post_log_transactions_def)

text \<open>A request is answered 200 only after all three checks, and then its key is stored
  with the hash of its payload.\<close>

lemma post_200_cases:
  assumes "http_status (fst (post_log_transactions env req db)) = 200"
  obtains payload k where "body_payload req = Some payload" and "truthy payload"
    and "verifySignature env payload (request_signature req) = Inr True"
    and "request_idempotencyKey req = Some k" and "truthy k"
  using assms
  by (auto simp: post_log_transactions_def Let_def error_middleware_def
           split: option.splits if_splits sum.splits)

lemma findUnique_create:
  "webhookDelivery_create env db row = Inr db' \<Longrightarrow>
   webhookDelivery_findUnique env db' (wd_key row) = Inr (Some row)"
  by (auto simp: webhookDelivery_create_def webhookDelivery_findUnique_def find_append_list
           split: option.splits if_splits)

lemma findUnique_upsert:
  "auditLog_upsert env db row = Inr db' \<Longrightarrow>
   webhookDelivery_findUnique env db' k = webhookDelivery_findUnique env db k"
  by (auto simp: auditLog_upsert_def webhookDelivery_findUnique_def
           split: option.splits if_splits)

lemma log_transaction_body_stores:
  assumes "log_transaction_body env db k h payload = Inr (result, db')"
  shows "\<exists>row. webhookDelivery_findUnique env db' k = Inr (Some row) \<and> wd_payloadHash row = h"
proof (cases "webhookDelivery_create env db \<lparr>wd_key = k, wd_payloadHash = h\<rparr>")
  case (Inl err)
  then show ?thesis using assms
    by (auto simp: log_transaction_body_def split: option.splits if_splits sum.splits)
next
  case (Inr tx1)
  from assms Inr have up: "auditLog_upsert env tx1 (audit_row payload) = Inr db'"
    by (auto simp: log_transaction_body_def split: sum.splits)
  from findUnique_create [OF Inr] findUnique_upsert [OF up, of k] show ?thesis by simp
qed

lemma log_transaction_body_conflict:
  assumes "webhookDelivery_findUnique env db k = Inr (Some row)" and "wd_payloadHash row \<noteq> h"
  shows "log_transaction_body env db k h payload = Inl (Error ''Idempotency key conflict'')"
proof -
  from assms(1) have valid: "delivery_key_valid env k"
    and found: "find (\<lambda>r. wd_key r = k) (webhookDelivery db) = Some row"
    by (auto simp: webhookDelivery_findUnique_def split: if_splits)
  then have "webhookDelivery_create env db \<lparr>wd_key = k, wd_payloadHash = h\<rparr>
      = Inl UniqueConstraintViolation"
    by (simp add: webhookDelivery_create_def)
  then show ?thesis using assms by (simp add: log_transaction_body_def)
qed

text \<open>
  The answer to a conflicting request, for every environment: when a first request was
  answered 200 and a second request carries the same idempotency key, a payload with a
  different payload hash and a valid signature, the transaction callback throws its
  \<open>Idempotency key conflict\<close>, the error-handling middleware answers, and the database
  stays as the first request left it.
\<close>

lemma conflicting_key_answer:
  assumes "http_status (fst (post_log_transactions env req1 db)) = 200"
    and "body_payload req1 = Some payload1"
    and "body_payload req2 = Some payload2" and "truthy payload2"
    and "request_idempotencyKey req2 = request_idempotencyKey req1"
    and "hashPayload env payload2 \<noteq> hashPayload env payload1"
    and "verifySignature env payload2 (request_signature req2) = Inr True"
  shows "post_log_transactions env req2 (snd (post_log_transactions env req1 db))
           = (\<lparr>http_status = 500, http_body = ErrorBody ''internal_error''\<rparr>,
              snd (post_log_transactions env req1 db))"
proof -
  let ?db1 = "snd (post_log_transactions env req1 db)"
  from assms(1) obtain p k where p: "body_payload req1 = Some p" and tp: "truthy p"
    and sig1: "verifySignature env p (request_signature req1) = Inr True"
    and k: "request_idempotencyKey req1 = Some k"
    and tk: "truthy k"
    by (rule post_200_cases)
  have pp: "p = payload1" using p assms(2) by simp
  note first = post_checked [OF p tp sig1 k tk, of db]
  obtain result where body1: "log_transaction_body env db k (hashPayload env payload1) payload1
      = Inr (result, ?db1)"
    using assms(1) first
    by (cases "log_transaction_body env db k (hashPayload env payload1) payload1")
       (auto simp: pp error_middleware_def)
  from log_transaction_body_stores [OF body1] obtain row where
    row: "webhookDelivery_findUnique env ?db1 k = Inr (Some row)"
    and h: "wd_payloadHash row = hashPayload env payload1"
    by blast
  have k2: "request_idempotencyKey req2 = Some k"
    using assms(5) k by simp
  have "log_transaction_body env ?db1 k (hashPayload env payload2) payload2
      = Inl (Error ''Idempotency key conflict'')"
    using row h assms(6) by (intro log_transaction_body_conflict) auto
  then show ?thesis
    using post_checked [OF assms(3,4,7) k2 tk, of ?db1]
    by (simp add: error_middleware_def)
qed

lemma sample_first_accepted:
  "post_log_transactions sample_env (signed_request ''k1'' (sample_event ''A'') sample_digest)
      empty_database
     = (\<lparr>http_status = 200, http_body = LogResponse True False\<rparr>,
        \<lparr>webhookDelivery =
           [\<lparr>wd_key = JString (code_units ''k1''), wd_payloadHash = code_units ''A''\<rparr>],
         auditLog = [audit_row (sample_event ''A'')]\<rparr>)"
proof -
  let ?req = "signed_request ''k1'' (sample_event ''A'') sample_digest"
  have sig: "verifySignature sample_env (sample_event ''A'') (request_signature ?req) = Inr True"
    by (simp add: signed_request_def request_signature_def sample_signature_A)
  have key: "request_idempotencyKey ?req = Some (JString (code_units ''k1''))"
    by (simp add: signed_request_def request_idempotencyKey_def)
  have "post_log_transactions sample_env ?req empty_database
     = (case log_transaction_body sample_env empty_database (JString (code_units ''k1''))
               (hashPayload sample_env (sample_event ''A'')) (sample_event ''A'') of
          Inl err \<Rightarrow> (error_middleware err, empty_database)
        | Inr (result, db') \<Rightarrow> (\<lparr>http_status = 200, http_body = result\<rparr>, db'))"
    by (rule post_checked [OF _ _ sig key])
       (simp_all add: signed_request_def sample_event_def code_units_def)
  moreover have "hashPayload sample_env (sample_event ''A'') = code_units ''A''"
    by (simp add: hashPayload_def sample_env_def sample_stringify_def sample_event_def
          js_get_def code_units_def)
  moreover have "audit_row_valid sample_env (audit_row (sample_event ''A''))"
    by (simp add: sample_env_def audit_row_def sample_event_def js_get_def code_units_def)
  moreover have "delivery_key_valid sample_env (JString (code_units ''k1''))"
    by (simp add: sample_env_def)
  ultimately show ?thesis
    by (simp add: log_transaction_body_def webhookDelivery_create_def auditLog_upsert_def
          empty_database_def)
qed

lemma sample_hashes_differ:
  "hashPayload sample_env (sample_event ''B'') \<noteq> hashPayload sample_env (sample_event ''A'')"
  by (simp add: hashPayload_def sample_env_def sample_stringify_def sample_event_def
        js_get_def code_units_def)

lemma sample_second_conflict:
  "post_log_transactions sample_env (signed_request ''k1'' (sample_event ''B'') other_digest)
      \<lparr>webhookDelivery =
         [\<lparr>wd_key = JString (code_units ''k1''), wd_payloadHash = code_units ''A''\<rparr>],
       auditLog = [audit_row (sample_event ''A'')]\<rparr>
     = (\<lparr>http_status = 500, http_body = ErrorBody ''internal_error''\<rparr>,
        \<lparr>webhookDelivery =
           [\<lparr>wd_key = JString (code_units ''k1''), wd_payloadHash = code_units ''A''\<rparr>],
         auditLog = [audit_row (sample_event ''A'')]\<rparr>)"
proof -
  let ?req = "signed_request ''k1'' (sample_event ''B'') other_digest"
  let ?db = "\<lparr>webhookDelivery =
         [\<lparr>wd_key = JString (code_units ''k1''), wd_payloadHash = code_units ''A''\<rparr>],
       auditLog = [audit_row (sample_event ''A'')]\<rparr>"
  have sig: "verifySignature sample_env (sample_event ''B'') (request_signature ?req) = Inr True"
    by (simp add: signed_request_def request_signature_def sample_signature_B)
  have key: "request_idempotencyKey ?req = Some (JString (code_units ''k1''))"
    by (simp add: signed_request_def request_idempotencyKey_def)
  have "post_log_transactions sample_env ?req ?db
     = (case log_transaction_body sample_env ?db (JString (code_units ''k1''))
               (hashPayload sample_env (sample_event ''B'')) (sample_event ''B'') of
          Inl err \<Rightarrow> (error_middleware err, ?db)
        | Inr (result, db') \<Rightarrow> (\<lparr>http_status = 200, http_body = result\<rparr>, db'))"
    by (rule post_checked [OF _ _ sig key])
       (simp_all add: signed_request_def sample_event_def code_units_def)
  moreover have "hashPayload sample_env (sample_event ''B'') = code_units ''B''"
    by (simp add: hashPayload_def sample_env_def sample_stringify_def sample_event_def
          js_get_def code_units_def)
  moreover have "delivery_key_valid sample_env (JString (code_units ''k1''))"
    by (simp add: sample_env_def)
  moreover have "code_units ''A'' \<noteq> code_units ''B''" by (simp add: code_units_def)
  ultimately show ?thesis
    by (simp add: log_transaction_body_def webhookDelivery_create_def
          webhookDelivery_findUnique_def error_middleware_def)
qed

text \<open>
  Claim C6 (idempotency conflict). The claim has the second of two requests with one
  idempotency key and different payload hashes answered 409 with
  \<open>{error: "Idempotency key conflict"}\<close>. Two signed requests with the key \<open>k1\<close>, the
  first for the event \<open>A\<close>, the second for the event \<open>B\<close>, whose payload hash is another
  one: the first is answered 200; for the second the handler finds the conflict and throws
  the error of that name, and the answer is 500 with \<open>{error: "internal_error"}\<close>, not 409.
  No row is written for the second request.
\<close>

theorem conflicting_key_409_counterexample:
  "http_status (fst (post_log_transactions sample_env
       (signed_request ''k1'' (sample_event ''A'') sample_digest) empty_database)) = 200
   \<and> hashPayload sample_env (sample_event ''B'') \<noteq> hashPayload sample_env (sample_event ''A'')
   \<and> log_transaction_body sample_env
        (snd (post_log_transactions sample_env
                (signed_request ''k1'' (sample_event ''A'') sample_digest) empty_database))
        (JString (code_units ''k1'')) (hashPayload sample_env (sample_event ''B''))
        (sample_event ''B'')
       = Inl (Error ''Idempotency key conflict'')
   \<and> post_log_transactions sample_env (signed_request ''k1'' (sample_event ''B'') other_digest)
        (snd (post_log_transactions sample_env
                (signed_request ''k1'' (sample_event ''A'') sample_digest) empty_database))
       = (\<lparr>http_status = 500, http_body = ErrorBody ''internal_error''\<rparr>,
          snd (post_log_transactions sample_env
                 (signed_request ''k1'' (sample_event ''A'') sample_digest) empty_database))
   \<and> fst (post_log_transactions sample_env (signed_request ''k1'' (sample_event ''B'') other_digest)
        (snd (post_log_transactions sample_env
                (signed_request ''k1'' (sample_event ''A'') sample_digest) empty_database)))
       \<noteq> \<lparr>http_status = 409, http_body = ErrorBody ''Idempotency key conflict''\<rparr>"
proof -
  have conflict: "log_transaction_body sample_env
        \<lparr>webhookDelivery =
           [\<lparr>wd_key = JString (code_units ''k1''), wd_payloadHash = code_units ''A''\<rparr>],
         auditLog = [audit_row (sample_event ''A'')]\<rparr>
        (JString (code_units ''k1'')) (hashPayload sample_env (sample_event ''B''))
        (sample_event ''B'')
       = Inl (Error ''Idempotency key conflict'')"
  proof (rule log_transaction_body_conflict)
    show "webhookDelivery_findUnique sample_env
        \<lparr>webhookDelivery =
           [\<lparr>wd_key = JString (code_units ''k1''), wd_payloadHash = code_units ''A''\<rparr>],
         auditLog = [audit_row (sample_event ''A'')]\<rparr>
        (JString (code_units ''k1''))
      = Inr (Some \<lparr>wd_key = JString (code_units ''k1''), wd_payloadHash = code_units ''A''\<rparr>)"
      by (simp add: webhookDelivery_findUnique_def sample_env_def)
    show "wd_payloadHash \<lparr>wd_key = JString (code_units ''k1''), wd_payloadHash = code_units ''A''\<rparr>
        \<noteq> hashPayload sample_env (sample_event ''B'')"
      by (simp add: hashPayload_def sample_env_def sample_stringify_def sample_event_def
            js_get_def code_units_def)
  qed
  show ?thesis
    using sample_hashes_differ conflict
    by (simp add: sample_first_accepted sample_second_conflict)
qed

text \<open>
  Claim C7 (missing idempotency key), as the code has it. The handler checks the
  payload, then the signature, then the key. A request that carries a payload and no
  idempotency key (neither header nor body field), and whose signature is absent, falsy or
  a string, is answered 400 with \<open>{error: "Idempotency-Key header required"}\<close> when its
  signature is valid, and 401 with \<open>{error: "invalid signature"}\<close> when its signature is
  missing or invalid. The database is unchanged in both cases.
\<close>

theorem keyless_request_response:
  assumes "body_payload req = Some payload" and "truthy payload"
    and "header_idempotencyKey req = None"
    and "body_idempotencyKey req = None"
    and "string_or_falsy (request_signature req)"
  shows "post_log_transactions env req db =
           (if verifySignature env payload (request_signature req) = Inr True
            then (\<lparr>http_status = 400,
                   http_body = ErrorBody ''Idempotency-Key header required''\<rparr>, db)
            else (\<lparr>http_status = 401, http_body = ErrorBody ''invalid signature''\<rparr>, db))"
proof -
  from verifySignature_returns [OF assms(5), of env payload] obtain valid where
    v: "verifySignature env payload (request_signature req) = Inr valid"
    by blast
  have key: "request_idempotencyKey req = None"
    using assms(3,4) by (simp add: request_idempotencyKey_def)
  show ?thesis
  proof (cases valid)
    case True
    then show ?thesis
      using post_no_key [OF assms(1,2), of env db] v key by simp
  next
    case False
    then show ?thesis
      using post_bad_signature [OF assms(1,2), of env db] v by simp
  qed
qed

theorem keyless_request_response_witness:
  "body_payload ((bare_request (sample_event ''A''))\<lparr>header_signature := Some sample_digest\<rparr>)
     = Some (sample_event ''A'')
   \<and> truthy (sample_event ''A'')
   \<and> header_idempotencyKey
        ((bare_request (sample_event ''A''))\<lparr>header_signature := Some sample_digest\<rparr>) = None
   \<and> body_idempotencyKey
        ((bare_request (sample_event ''A''))\<lparr>header_signature := Some sample_digest\<rparr>) = None
   \<and> string_or_falsy (request_signature
        ((bare_request (sample_event ''A''))\<lparr>header_signature := Some sample_digest\<rparr>))
   \<and> string_or_falsy (request_signature (bare_request (sample_event ''A'')))
   \<and> post_log_transactions sample_env
        ((bare_request (sample_event ''A''))\<lparr>header_signature := Some sample_digest\<rparr>)
        empty_database
       = (\<lparr>http_status = 400, http_body = ErrorBody ''Idempotency-Key header required''\<rparr>,
          empty_database)
   \<and> post_log_transactions sample_env (bare_request (sample_event ''A'')) empty_database
       = (\<lparr>http_status = 401, http_body = ErrorBody ''invalid signature''\<rparr>, empty_database)"
proof -
  let ?bare = "bare_request (sample_event ''A'')"
  let ?signed = "?bare\<lparr>header_signature := Some sample_digest\<rparr>"
  have a: "body_payload ?signed = Some (sample_event ''A'')"
    and b: "header_idempotencyKey ?signed = None"
    and c: "body_idempotencyKey ?signed = None"
    by (simp_all add: bare_request_def)
  have a': "body_payload ?bare = Some (sample_event ''A'')"
    and b': "header_idempotencyKey ?bare = None"
    and c': "body_idempotencyKey ?bare = None"
    by (simp_all add: bare_request_def)
  have t: "truthy (sample_event ''A'')" by (simp add: sample_event_def)
  have s: "request_signature ?signed = Some (JString sample_digest)"
    by (simp add: bare_request_def request_signature_def)
  have s': "request_signature ?bare = None"
    by (simp add: bare_request_def request_signature_def)
  have d: "string_or_falsy (request_signature ?signed)"
    by (simp add: s string_or_falsy_def)
  have d': "string_or_falsy (request_signature ?bare)"
    by (simp add: s' string_or_falsy_def)
  have one: "post_log_transactions sample_env ?signed empty_database
       = (\<lparr>http_status = 400, http_body = ErrorBody ''Idempotency-Key header required''\<rparr>,
          empty_database)"
    using keyless_request_response [OF a t b c d, of sample_env empty_database]
    by (simp add: s sample_signature_A)
  have two: "post_log_transactions sample_env ?bare empty_database
       = (\<lparr>http_status = 401, http_body = ErrorBody ''invalid signature''\<rparr>, empty_database)"
    using keyless_request_response [OF a' t b' c' d', of sample_env empty_database]
    by (simp add: s' verifySignature_absent)
  from a t b c d d' one two show ?thesis by (intro conjI)
qed

text \<open>
  The claim as stated (400 whatever the signature) fails: a request with a payload, no
  key and no signature is answered 401.
\<close>

theorem keyless_unsigned_counterexample:
  "body_payload (bare_request (sample_event ''A'')) = Some (sample_event ''A'')
   \<and> header_idempotencyKey (bare_request (sample_event ''A'')) = None
   \<and> body_idempotencyKey (bare_request (sample_event ''A'')) = None
   \<and> header_signature (bare_request (sample_event ''A'')) = None
   \<and> body_signature (bare_request (sample_event ''A'')) = None
   \<and> http_status (fst (post_log_transactions sample_env (bare_request (sample_event ''A''))
         empty_database)) = 401
   \<and> http_status (fst (post_log_transactions sample_env (bare_request (sample_event ''A''))
         empty_database)) \<noteq> 400"
  by (simp add: bare_request_def post_log_transactions_def verifySignature_def
        request_signature_def request_idempotencyKey_def sample_event_def)

text \<open>
  A signature in the body that is truthy and not a string (the number 123, say) is
  outside of the statement above: \<open>verifySignature\<close> throws for it, and the request is
  answered by the error-handling middleware. A payload that is truthy and not an object
  (the string \<open>abc\<close>, say) passes the first check like any other payload.
\<close>

lemma keyless_signature_not_string:
  assumes "body_payload req = Some payload" and "truthy payload"
    and "request_signature req = Some v" and "truthy v" and "\<not> is_string v"
  shows "post_log_transactions env req db
           = (\<lparr>http_status = 500, http_body = ErrorBody ''internal_error''\<rparr>, db)"
  using post_signature_throws [OF assms(1,2), of env TypeError db]
    verifySignature_not_string [OF assms(4,5), of env payload] assms(3)
  by simp

lemma sample_signature_number:
  "post_log_transactions sample_env
      ((bare_request (sample_event ''A''))\<lparr>body_signature := Some (JNumber 123)\<rparr>) empty_database
     = (\<lparr>http_status = 500, http_body = ErrorBody ''internal_error''\<rparr>, empty_database)"
  by (rule keyless_signature_not_string
        [where v = "JNumber 123" and payload = "sample_event ''A''"])
     (simp_all add: bare_request_def request_signature_def sample_event_def)

lemma sample_payload_string:
  "post_log_transactions sample_env (bare_request (JString (code_units ''abc''))) empty_database
     = (\<lparr>http_status = 401, http_body = ErrorBody ''invalid signature''\<rparr>, empty_database)"
  by (simp add: bare_request_def post_log_transactions_def verifySignature_def
        request_signature_def request_idempotencyKey_def code_units_def)

section \<open>Properties of the Open Cloud client\<close>

lemma outline_Inner [simp]: "outline (map Inner xs) = []"
  by (induction xs) (simp_all add: outline_def)

lemma outline_Nil [simp]: "outline [] = []"
  by (simp add: outline_def)

lemma outline_Cons_Attempt [simp]: "outline (Attempt k # evs) = Attempt k # outline evs"
  by (simp add: outline_def)

lemma outline_Cons_Backoff [simp]: "outline (Backoff w # evs) = Backoff w # outline evs"
  by (simp add: outline_def)

lemma outline_append [simp]: "outline (xs @ ys) = outline xs @ outline ys"
  by (simp add: outline_def)

lemma executions_Inner [simp]: "executions (map Inner xs) = 0"
  by (induction xs) (simp_all add: executions_def)

lemma executions_simps [simp]:
  "executions [] = 0"
  "executions (Attempt k # evs) = Suc (executions evs)"
  "executions (Backoff w # evs) = executions evs"
  "executions (xs @ ys) = executions xs + executions ys"
  by (simp_all add: executions_def)














lemma store_first_read:
  "getDataStoreEntry default_options sample_Number store_unavailable_once no_jitter no_body 0
     = (Inr None, [Attempt 0], 1)"
  by (simp add: getDataStoreEntry_def request_def request_retries_def withBackoff_def
        withBackoff_loop.simps request_attempt_def store_unavailable_once_def resp_ok_def
        maxRetries_def backoffMs_def default_options_def)

lemma credit_ten_posted:
  "updateEconomyProfile_attempt None credit_ten now
     = (\<lparr>balance = 10, processed = True,
          result_record = candidate 0 (command_params credit_ten) now\<rparr>,
        \<lparr>profile_balance = 10,
          profile_processed = [candidate 0 (command_params credit_ten) now]\<rparr>,
        Some \<lparr>profile_balance = 10,
               profile_processed = [candidate 0 (command_params credit_ten) now]\<rparr>)"
proof -
  let ?t = "candidate 0 (command_params credit_ten) now"
  have seeded: "seeded_buffer [] = empty_ring 64"
    by (simp add: seeded_buffer_def DEFAULT_RING_SIZE_def)
  have inv: "ring_inv (empty_ring 64)" by (simp add: ring_inv_empty_ring)
  have miss: "lookup (empty_ring 64) (txnId ?t) = None" by (simp add: empty_ring_def)
  have miss': "lookup (empty_ring 64) (p_txnId (command_params credit_ten)) = None"
    by (simp add: empty_ring_def)
  have sz: "ring_size (empty_ring 64) = 64" by (simp add: empty_ring_def)
  have res: "resident (snd (record_txn (empty_ring 64) ?t)) = [?t]"
    using record_txn_miss_resident [OF inv miss] by (simp add: resident_empty_ring sz)
  have delta: "p_delta (command_params credit_ten) = 10"
    by (simp add: command_params_def credit_ten_def)
  show ?thesis
    using res
    by (simp add: updateEconomyProfile_attempt_def seeded apply_miss [OF miss'] delta
          resident_def Let_def)
qed

text \<open>
  The store client on a store whose first write is answered 503 with \<open>Retry-After: 2\<close>:
  the read, the write, the advertised 2000 ms, the computed 250 ms of the wrapper of
  \<open>updateEconomyProfile\<close>, then the read and the write again.
\<close>

lemma store_write_sent_again:
  "updateEconomyProfile default_options sample_Number store_unavailable_once no_jitter no_jitter
      no_body credit_ten still_clock 0
     = (Inr (\<lparr>balance = 10, processed = True,
               result_record = candidate 0 (command_params credit_ten) 0\<rparr>,
             \<lparr>profile_balance = 10,
               profile_processed = [candidate 0 (command_params credit_ten) 0]\<rparr>),
        [Attempt 0, Inner (Attempt 0), Inner (Attempt 0), Inner (Inner (RetryAfterDelay 2000)),
         Backoff 250, Attempt 1, Inner (Attempt 0), Inner (Attempt 0)], 4)"
proof -
  have read0: "getDataStoreEntry default_options sample_Number store_unavailable_once no_jitter
      no_body 0 = (Inr None, [Attempt 0], 1)"
    by (rule store_first_read)
  have read2: "getDataStoreEntry default_options sample_Number store_unavailable_once no_jitter
      no_body 2 = (Inr None, [Attempt 0], 3)"
    by (simp add: getDataStoreEntry_def request_def request_retries_def withBackoff_def
        withBackoff_loop.simps request_attempt_def store_unavailable_once_def resp_ok_def
        maxRetries_def backoffMs_def default_options_def)
  have post1: "postDataStoreEntry default_options sample_Number store_unavailable_once no_jitter
      (Suc 0) = (Inl (Some (TransientFailure 503)), [Attempt 0, Inner (RetryAfterDelay 2000)], 2)"
    by (simp add: postDataStoreEntry_def request_def request_retries_def withBackoff_def
        withBackoff_loop.simps request_attempt_def store_unavailable_once_def
        retry_after_wait_def retry_after_ms_def sample_Number_def)
  have post3: "postDataStoreEntry default_options sample_Number store_unavailable_once no_jitter 3
      = (Inr \<lparr>resp_status = 200, resp_retryAfter = None, resp_code = None\<rparr>, [Attempt 0], 4)"
    by (simp add: postDataStoreEntry_def request_def request_retries_def withBackoff_def
        withBackoff_loop.simps request_attempt_def store_unavailable_once_def resp_ok_def)
  have run0: "updateEconomyProfile_run default_options sample_Number store_unavailable_once
      no_jitter no_body credit_ten still_clock 0
      = (Inl (RequestError (Some (TransientFailure 503))),
         [Attempt 0, Attempt 0, Inner (RetryAfterDelay 2000)], 2)"
    by (simp add: updateEconomyProfile_run_def read0 credit_ten_posted post1 still_clock_def)
  have run2: "updateEconomyProfile_run default_options sample_Number store_unavailable_once
      no_jitter no_body credit_ten still_clock 2
      = (Inr (\<lparr>balance = 10, processed = True,
               result_record = candidate 0 (command_params credit_ten) 0\<rparr>,
             \<lparr>profile_balance = 10,
               profile_processed = [candidate 0 (command_params credit_ten) 0]\<rparr>),
         [Attempt 0, Attempt 0], 4)"
    by (simp add: updateEconomyProfile_run_def read2 credit_ten_posted post3 still_clock_def)
  have m: "maxRetries default_options = 4" and d: "backoffMs default_options = 250"
    by (simp_all add: maxRetries_def backoffMs_def default_options_def)
  show ?thesis
    by (simp add: updateEconomyProfile_def withBackoff_def withBackoff_loop.simps run0 run2
          m d no_jitter_def)
qed






section \<open>Conservation of the balance\<close>

lemma dom_lookup_record_txn:
  "dom (lookup (snd (record_txn b t))) \<subseteq> insert (txnId t) (dom (lookup b))"
  by (auto simp: record_txn_def Let_def split: option.splits if_splits)

lemma applyMany_first_applies:
  "applyMany bal b cs = (rs, bal', b') \<Longrightarrow> dom (lookup b) \<subseteq> set seen \<Longrightarrow>
   distinct (map (\<lambda>r. txnId (result_record r)) (filter processed rs)) \<Longrightarrow>
   set seen \<inter> set (map (\<lambda>r. txnId (result_record r)) (filter processed rs)) = {} \<Longrightarrow>
     map (\<lambda>r. delta (result_record r)) (filter processed rs)
       = map p_delta (spec_first_applies seen (map fst cs))"
proof (induction cs arbitrary: bal b rs seen)
  case Nil
  then show ?case by simp
next
  case (Cons c cs)
  obtain p now where c: "c = (p, now)" by (cases c)
  show ?case
  proof (cases "lookup b (p_txnId p)")
    case None
    let ?t = "candidate bal p now"
    let ?b = "snd (record_txn b ?t)"
    let ?r = "\<lparr>balance = bal + p_delta p, processed = True, result_record = ?t\<rparr>"
    obtain rs0 where rs: "rs = ?r # rs0"
      and rest: "applyMany (bal + p_delta p) ?b cs = (rs0, bal', b')"
      using Cons.prems(1) by (auto simp: c apply_miss [OF None] split: prod.splits)
    have fresh: "p_txnId p \<notin> set seen" using Cons.prems(4) by (auto simp: rs)
    have dom': "dom (lookup ?b) \<subseteq> set (p_txnId p # seen)"
      using dom_lookup_record_txn [of b ?t] Cons.prems(2) by auto
    have dist': "distinct (map (\<lambda>r. txnId (result_record r)) (filter processed rs0))"
      using Cons.prems(3) by (simp add: rs)
    have disj': "set (p_txnId p # seen)
        \<inter> set (map (\<lambda>r. txnId (result_record r)) (filter processed rs0)) = {}"
      using Cons.prems(3,4) by (auto simp: rs)
    from Cons.IH [OF rest dom' dist' disj'] fresh show ?thesis by (simp add: rs c)
  next
    case (Some e)
    let ?r = "\<lparr>balance = bal, processed = False, result_record = e\<rparr>"
    obtain rs0 where rs: "rs = ?r # rs0" and rest: "applyMany bal b cs = (rs0, bal', b')"
      using Cons.prems(1) by (auto simp: c apply_hit [OF Some] split: prod.splits)
    have seen: "p_txnId p \<in> set seen" using Some Cons.prems(2) by auto
    from Cons.IH [OF rest Cons.prems(2)] Cons.prems(3,4) seen show ?thesis
      by (simp add: rs c)
  qed
qed

lemma applyMany_no_eviction:
  "ring_inv b \<Longrightarrow> applyMany bal b cs = (rs, bal', b') \<Longrightarrow>
   card (txnId ` set (resident b) \<union> (\<lambda>c. p_txnId (fst c)) ` set cs) \<le> ring_size b \<Longrightarrow>
     distinct (map (\<lambda>r. txnId (result_record r)) (filter processed rs))
     \<and> set (map (\<lambda>r. txnId (result_record r)) (filter processed rs))
         \<inter> txnId ` set (resident b) = {}"
proof (induction cs arbitrary: bal b rs)
  case Nil
  then show ?case by simp
next
  case (Cons c cs)
  obtain p now where c: "c = (p, now)" by (cases c)
  let ?U = "txnId ` set (resident b) \<union> (\<lambda>c. p_txnId (fst c)) ` set (c # cs)"
  have finU: "finite ?U" by simp
  show ?case
  proof (cases "lookup b (p_txnId p)")
    case None
    let ?t = "candidate bal p now"
    let ?b = "snd (record_txn b ?t)"
    let ?r = "\<lparr>balance = bal + p_delta p, processed = True, result_record = ?t\<rparr>"
    have miss: "lookup b (txnId ?t) = None" using None by simp
    obtain rs0 where rs: "rs = ?r # rs0"
      and rest: "applyMany (bal + p_delta p) ?b cs = (rs0, bal', b')"
      using Cons.prems(2) by (auto simp: c apply_miss [OF None] split: prod.splits)
    have notin: "p_txnId p \<notin> txnId ` set (resident b)"
      using None Cons.prems(1) by (simp add: ring_inv_lookup_None)
    have dist: "distinct (map txnId (resident b))" using Cons.prems(1) by (simp add: ring_inv_def)
    have "insert (p_txnId p) (txnId ` set (resident b)) \<subseteq> ?U" by (auto simp: c)
    then have "card (insert (p_txnId p) (txnId ` set (resident b))) \<le> card ?U"
      using finU by (rule card_mono [rotated])
    moreover have "card (insert (p_txnId p) (txnId ` set (resident b)))
        = Suc (length (resident b))"
      using notin dist distinct_card [of "map txnId (resident b)"] by simp
    ultimately have room: "length (resident b) < ring_size b" using Cons.prems(3) by simp
    from record_txn_miss_step [OF Cons.prems(1) miss] room
    have inv': "ring_inv ?b" and sz': "ring_size ?b = ring_size b"
      and res': "resident ?b = resident b @ [?t]"
      by simp_all
    have "txnId ` set (resident ?b) \<union> (\<lambda>c. p_txnId (fst c)) ` set cs \<subseteq> ?U"
      by (auto simp: res' c)
    then have "card (txnId ` set (resident ?b) \<union> (\<lambda>c. p_txnId (fst c)) ` set cs) \<le> card ?U"
      using finU by (rule card_mono [rotated])
    then have card': "card (txnId ` set (resident ?b) \<union> (\<lambda>c. p_txnId (fst c)) ` set cs)
        \<le> ring_size ?b"
      using Cons.prems(3) sz' by simp
    from Cons.IH [OF inv' rest card'] notin show ?thesis
      by (auto simp: rs res')
  next
    case (Some e)
    let ?r = "\<lparr>balance = bal, processed = False, result_record = e\<rparr>"
    obtain rs0 where rs: "rs = ?r # rs0" and rest: "applyMany bal b cs = (rs0, bal', b')"
      using Cons.prems(2) by (auto simp: c apply_hit [OF Some] split: prod.splits)
    have "txnId ` set (resident b) \<union> (\<lambda>c. p_txnId (fst c)) ` set cs \<subseteq> ?U" by auto
    then have "card (txnId ` set (resident b) \<union> (\<lambda>c. p_txnId (fst c)) ` set cs) \<le> card ?U"
      using finU by (rule card_mono [rotated])
    then have card': "card (txnId ` set (resident b) \<union> (\<lambda>c. p_txnId (fst c)) ` set cs)
        \<le> ring_size b"
      using Cons.prems(3) by simp
    from Cons.IH [OF Cons.prems(1) rest card'] show ?thesis by (simp add: rs)
  qed
qed

lemma applyMany_append:
  "applyMany bal b (cs @ ds) =
     (case applyMany bal b cs of (rs, bal1, b1) \<Rightarrow>
        (case applyMany bal1 b1 ds of (rs2, bal2, b2) \<Rightarrow> (rs @ rs2, bal2, b2)))"
  by (induction cs arbitrary: bal b) (auto split: prod.splits)

subsection \<open>The addition of the source\<close>

lemma exponent_above_small: "m < 2 ^ 53 \<Longrightarrow> exponent_above m = 0"
  by (simp add: exponent_above.simps)

lemma exponent_above_large: "2 ^ 53 \<le> m \<Longrightarrow> exponent_above m = Suc (exponent_above (m div 2))"
  by (subst exponent_above.simps) simp

lemma exponent_above_quotient:
  "2 ^ 53 \<le> m \<Longrightarrow> 2 ^ 52 \<le> m div 2 ^ exponent_above m"
proof (induction m rule: exponent_above.induct)
  case (1 m)
  show ?case
  proof (cases "m div 2 < 2 ^ 53")
    case True
    have "2 ^ 52 \<le> m div 2" using "1.prems" by simp
    then show ?thesis
      using True "1.prems" by (simp add: exponent_above_large exponent_above_small)
  next
    case False
    then have big: "2 ^ 53 \<le> m div 2" by simp
    have "\<not> m < 2 ^ 53" using "1.prems" by simp
    from "1.IH" [OF this big] have "2 ^ 52 \<le> (m div 2) div 2 ^ exponent_above (m div 2)" .
    then show ?thesis
      using "1.prems" by (simp add: exponent_above_large div_mult2_eq)
  qed
qed

lemma round_double_exact: "\<bar>x\<bar> < 2 ^ 53 \<Longrightarrow> round_double x = x"
proof -
  assume "\<bar>x\<bar> < 2 ^ 53"
  then have "nat \<bar>x\<bar> < 2 ^ 53" by simp
  then show ?thesis by (simp add: round_double_def Let_def exponent_above_small)
qed

lemma round_double_large: "2 ^ 53 \<le> \<bar>x\<bar> \<Longrightarrow> 2 ^ 53 \<le> \<bar>round_double x\<bar>"
proof -
  assume big: "2 ^ 53 \<le> \<bar>x\<bar>"
  define m where "m = nat \<bar>x\<bar>"
  define e where "e = exponent_above m"
  define q where "q = m div 2 ^ e"
  define r where "r = m mod 2 ^ e"
  define q' where "q' = (if 2 ^ e < 2 * r \<or> (2 * r = 2 ^ e \<and> odd q) then q + 1 else q)"
  have m: "2 ^ 53 \<le> m" using big by (simp add: m_def le_nat_iff)
  then have e: "0 < e" by (simp add: e_def exponent_above_large)
  have q: "2 ^ 52 \<le> q" unfolding q_def e_def by (rule exponent_above_quotient [OF m])
  have "q \<le> q'" by (simp add: q'_def)
  with q have q': "2 ^ 52 \<le> q'" by simp
  have "(2::nat) ^ 1 \<le> 2 ^ e" using e by (intro power_increasing) simp_all
  then have "(2::nat) \<le> 2 ^ e" by simp
  with q' have "(2 ^ 52) * 2 \<le> q' * 2 ^ e" by (rule mult_le_mono)
  then have prod: "(2::nat) ^ 53 \<le> q' * 2 ^ e" by simp
  have x0: "x \<noteq> 0" using big by auto
  have rd: "round_double x = sgn x * int (q' * 2 ^ e)"
    using e unfolding round_double_def Let_def m_def [symmetric] e_def [symmetric]
      q_def [symmetric] r_def [symmetric] q'_def by simp
  have "\<bar>round_double x\<bar> = int (q' * 2 ^ e)"
    unfolding rd using x0 by (simp add: abs_mult abs_sgn_eq)
  also have "\<dots> \<ge> int (2 ^ 53)" using prod by (simp only: of_nat_le_iff)
  finally show ?thesis by simp
qed

lemma double_add_safe:
  "safe_integer (double_add a b) \<Longrightarrow> double_add a b = a + b"
proof -
  assume safe: "safe_integer (double_add a b)"
  have "\<bar>a + b\<bar> < 2 ^ 53"
  proof (rule ccontr)
    assume "\<not> \<bar>a + b\<bar> < 2 ^ 53"
    then have "2 ^ 53 \<le> \<bar>a + b\<bar>" by simp
    from round_double_large [OF this] safe show False
      unfolding double_add_def safe_integer_def MAX_SAFE_INTEGER_def by simp arith
  qed
  then show ?thesis by (simp add: double_add_def round_double_exact)
qed

lemma double_add_exact: "safe_integer (a + b) \<Longrightarrow> double_add a b = a + b"
proof -
  assume "safe_integer (a + b)"
  then have "\<bar>a + b\<bar> < 2 ^ 53"
    unfolding safe_integer_def MAX_SAFE_INTEGER_def by simp arith
  then show ?thesis by (simp add: double_add_def round_double_exact)
qed

lemma double_add_rounds:
  "double_add 9007199254740991 2 = 9007199254740992"
  by (simp add: double_add_def round_double_def Let_def exponent_above.simps)

text \<open>The applier with the addition of the source, one call.\<close>

lemma apply_double_hit:
  "lookup b (p_txnId p) = Some e \<Longrightarrow>
   applyIdempotentTransaction_double bal p b now =
     (\<lparr>balance = bal, processed = False, result_record = e\<rparr>, b)"
  by (simp add: applyIdempotentTransaction_double_def Let_def record_txn_def candidate_double_def)

lemma apply_double_miss:
  "lookup b (p_txnId p) = None \<Longrightarrow>
   applyIdempotentTransaction_double bal p b now =
     (\<lparr>balance = double_add bal (p_delta p), processed = True,
       result_record = candidate_double bal p now\<rparr>,
      snd (record_txn b (candidate_double bal p now)))"
  by (simp add: applyIdempotentTransaction_double_def Let_def record_txn_def candidate_double_def
           split: prod.splits)

lemma candidate_double_exact:
  "double_add bal (p_delta p) = bal + p_delta p \<Longrightarrow> candidate_double bal p now = candidate bal p now"
  by (simp add: candidate_double_def candidate_def)

text \<open>
  A call that returns a safe integer as balance added exactly: the applier with the
  addition of the source and the applier with the addition of integers give the same
  result and the same ring. So do they on every run whose calls return safe integers.
\<close>

lemma apply_double_safe:
  assumes "applyIdempotentTransaction_double bal p b now = (r, b')"
    and "safe_integer (balance r)"
  shows "applyIdempotentTransaction bal p b now = (r, b')"
proof (cases "lookup b (p_txnId p)")
  case (Some e)
  then show ?thesis using assms(1) by (simp add: apply_double_hit apply_hit)
next
  case None
  from assms(1) have r: "balance r = double_add bal (p_delta p)"
    by (auto simp: apply_double_miss [OF None])
  have "double_add bal (p_delta p) = bal + p_delta p"
    using assms(2) unfolding r by (rule double_add_safe)
  then show ?thesis
    using assms(1) by (simp add: apply_double_miss [OF None] apply_miss [OF None]
        candidate_double_exact)
qed

lemma apply_safe_double:
  assumes "applyIdempotentTransaction bal p b now = (r, b')"
    and "safe_integer (balance r)"
  shows "applyIdempotentTransaction_double bal p b now = (r, b')"
proof (cases "lookup b (p_txnId p)")
  case (Some e)
  then show ?thesis using assms(1) by (simp add: apply_double_hit apply_hit)
next
  case None
  from assms(1) have r: "balance r = bal + p_delta p"
    by (auto simp: apply_miss [OF None])
  have "double_add bal (p_delta p) = bal + p_delta p"
    using assms(2) unfolding r by (rule double_add_exact)
  then show ?thesis
    using assms(1) by (simp add: apply_double_miss [OF None] apply_miss [OF None]
        candidate_double_exact)
qed

lemma applyMany_double_safe:
  "applyMany_double bal b cs = (rs, bal', b') \<Longrightarrow>
   list_all (\<lambda>r. safe_integer (balance r)) rs \<Longrightarrow> applyMany bal b cs = (rs, bal', b')"
proof (induction cs arbitrary: bal b rs)
  case Nil
  then show ?case by simp
next
  case (Cons c cs)
  obtain p now where c: "c = (p, now)" by (cases c)
  obtain r b1 where app: "applyIdempotentTransaction_double bal p b now = (r, b1)"
    by (cases "applyIdempotentTransaction_double bal p b now") auto
  obtain rs0 where rs: "rs = r # rs0"
    and rest: "applyMany_double (balance r) b1 cs = (rs0, bal', b')"
    using Cons.prems(1) by (auto simp: c app split: prod.splits)
  have safe: "safe_integer (balance r)" and safe0: "list_all (\<lambda>r. safe_integer (balance r)) rs0"
    using Cons.prems(2) by (simp_all add: rs)
  from apply_double_safe [OF app safe] Cons.IH [OF rest safe0]
  show ?case by (simp add: c rs)
qed

lemma applyMany_safe_double:
  "applyMany bal b cs = (rs, bal', b') \<Longrightarrow>
   list_all (\<lambda>r. safe_integer (balance r)) rs \<Longrightarrow> applyMany_double bal b cs = (rs, bal', b')"
proof (induction cs arbitrary: bal b rs)
  case Nil
  then show ?case by simp
next
  case (Cons c cs)
  obtain p now where c: "c = (p, now)" by (cases c)
  obtain r b1 where app: "applyIdempotentTransaction bal p b now = (r, b1)"
    by (cases "applyIdempotentTransaction bal p b now") auto
  obtain rs0 where rs: "rs = r # rs0"
    and rest: "applyMany (balance r) b1 cs = (rs0, bal', b')"
    using Cons.prems(1) by (auto simp: c app split: prod.splits)
  have safe: "safe_integer (balance r)" and safe0: "list_all (\<lambda>r. safe_integer (balance r)) rs0"
    using Cons.prems(2) by (simp_all add: rs)
  from apply_safe_double [OF app safe] Cons.IH [OF rest safe0]
  show ?case by (simp add: c rs)
qed

text \<open>Credits of at most \<open>d\<close> units each keep every balance between the starting balance
  and the starting balance plus \<open>d\<close> for each call.\<close>

lemma applyMany_balance_range:
  "applyMany bal b cs = (rs, bal', b') \<Longrightarrow>
   list_all (\<lambda>c. 0 \<le> p_delta (fst c) \<and> p_delta (fst c) \<le> d) cs \<Longrightarrow>
     list_all (\<lambda>r. bal \<le> balance r \<and> balance r \<le> bal + d * int (length cs)) rs"
proof (induction cs arbitrary: bal b rs)
  case Nil
  then show ?case by simp
next
  case (Cons c cs)
  obtain p now where c: "c = (p, now)" by (cases c)
  have dp: "0 \<le> p_delta p" "p_delta p \<le> d" using Cons.prems(2) by (simp_all add: c)
  then have d0: "0 \<le> d" by simp
  have rest_deltas: "list_all (\<lambda>c. 0 \<le> p_delta (fst c) \<and> p_delta (fst c) \<le> d) cs"
    using Cons.prems(2) by simp
  obtain r b1 where app: "applyIdempotentTransaction bal p b now = (r, b1)"
    by (cases "applyIdempotentTransaction bal p b now") auto
  obtain rs0 where rs: "rs = r # rs0" and rest: "applyMany (balance r) b1 cs = (rs0, bal', b')"
    using Cons.prems(1) by (auto simp: c app split: prod.splits)
  have r: "bal \<le> balance r \<and> balance r \<le> bal + d"
  proof (cases "lookup b (p_txnId p)")
    case None
    then show ?thesis using app dp by (auto simp: apply_miss)
  next
    case (Some e)
    then show ?thesis using app d0 by (auto simp: apply_hit)
  qed
  have step: "bal \<le> x \<and> x \<le> bal + d * int (length (c # cs))"
    if "balance r \<le> x \<and> x \<le> balance r + d * int (length cs)" for x
  proof -
    have "balance r + d * int (length cs) \<le> bal + d + d * int (length cs)" using r by simp
    also have "\<dots> = bal + d * int (length (c # cs))" by (simp add: algebra_simps)
    finally show ?thesis using that r by simp
  qed
  have "list_all (\<lambda>x. bal \<le> balance x \<and> balance x \<le> bal + d * int (length (c # cs))) rs0"
    using Cons.IH [OF rest rest_deltas] step by (simp add: list_all_iff)
  moreover have "bal \<le> balance r \<and> balance r \<le> bal + d * int (length (c # cs))"
  proof -
    have "0 \<le> d * int (length cs)" using d0 by simp
    then have "bal + d \<le> bal + d * int (length (c # cs))" by (simp add: algebra_simps)
    then show ?thesis using r by simp
  qed
  ultimately show ?case by (simp add: rs)
qed

lemma small_credits_safe_run:
  assumes "applyMany 0 b cs = (rs, bal', b')"
    and "list_all (\<lambda>c. 0 \<le> p_delta (fst c) \<and> p_delta (fst c) \<le> 10) cs"
    and "length cs \<le> 100"
  shows "safe_run 0 cs rs"
proof -
  have deltas: "list_all (\<lambda>c. safe_integer (p_delta (fst c))) cs"
    using assms(2) by (auto simp: list_all_iff safe_integer_def MAX_SAFE_INTEGER_def)
  have "10 * int (length cs) \<le> 1000" using assms(3) by simp
  then have "list_all (\<lambda>r. safe_integer (balance r)) rs"
    using applyMany_balance_range [OF assms(1,2)]
    by (auto simp: list_all_iff safe_integer_def MAX_SAFE_INTEGER_def)
  with deltas show ?thesis
    by (simp add: safe_run_def safe_integer_def MAX_SAFE_INTEGER_def)
qed


lemma small_credits_double_run:
  assumes "applyMany 0 b cs = (rs, bal', b')"
    and "list_all (\<lambda>c. 0 \<le> p_delta (fst c) \<and> p_delta (fst c) \<le> 10) cs"
    and "length cs \<le> 100"
  shows "applyMany_double 0 b cs = (rs, bal', b')"
  using small_credits_safe_run [OF assms] applyMany_safe_double [OF assms(1)]
  by (simp add: safe_run_def)

text \<open>
  Claim C5 (conservation), as the code has it. For every sequence of calls fed through
  the applier from a new ring of the default capacity, in a run that is safe (the starting
  balance, the deltas and the balances returned are safe integers), the resulting balance
  is the starting balance plus the sum of delta over the calls that were processed,
  resident in the ring or not. When in addition no transaction id was processed twice,
  that is the sum of delta over the distinct transaction ids ever applied (the first call
  of each id), and no transaction id is processed twice whenever the calls carry at most
  64 different ids. A call that replays an id after its record was evicted is processed
  again and counts again; a sum that leaves the safe integers is rounded.
\<close>

theorem balance_conservation:
  assumes "new_ProcessedTxnBuffer DEFAULT_RING_SIZE = Inr b0"
  shows "(case applyMany_double bal0 b0 cs of (rs, bal, b) \<Rightarrow>
           safe_run bal0 cs rs \<longrightarrow>
             bal = bal0 + sum_list (map (\<lambda>r. delta (result_record r)) (filter processed rs))
             \<and> (distinct (map (\<lambda>r. txnId (result_record r)) (filter processed rs))
                  \<longrightarrow> bal = bal0 + spec_distinct_delta_sum cs)
             \<and> (card (set (map (\<lambda>c. p_txnId (fst c)) cs)) \<le> 64
                  \<longrightarrow> distinct (map (\<lambda>r. txnId (result_record r)) (filter processed rs))))"
proof -
  have b0: "b0 = empty_ring 64" using assms by (simp add: new_default_ring)
  have inv0: "ring_inv (empty_ring 64)" by (simp add: ring_inv_empty_ring)
  have sz0: "ring_size (empty_ring 64) = 64" by (simp add: empty_ring_def)
  have lk0: "dom (lookup (empty_ring 64)) \<subseteq> set []" by (simp add: empty_ring_def)
  obtain rs bal b where drun: "applyMany_double bal0 (empty_ring 64) cs = (rs, bal, b)"
    by (cases "applyMany_double bal0 (empty_ring 64) cs") auto
  have goal: "bal = bal0 + sum_list (map (\<lambda>r. delta (result_record r)) (filter processed rs))
             \<and> (distinct (map (\<lambda>r. txnId (result_record r)) (filter processed rs))
                  \<longrightarrow> bal = bal0 + spec_distinct_delta_sum cs)
             \<and> (card (set (map (\<lambda>c. p_txnId (fst c)) cs)) \<le> 64
                  \<longrightarrow> distinct (map (\<lambda>r. txnId (result_record r)) (filter processed rs)))"
    if safe: "safe_run bal0 cs rs"
  proof -
    from safe have "list_all (\<lambda>r. safe_integer (balance r)) rs" by (simp add: safe_run_def)
    from applyMany_double_safe [OF drun this]
    have run: "applyMany bal0 (empty_ring 64) cs = (rs, bal, b)" .
    have sum: "bal = bal0 + sum_list (map (\<lambda>r. delta (result_record r)) (filter processed rs))"
      using applyMany_inv [OF inv0 run] by (simp add: comp_def)
    have first: "bal = bal0 + spec_distinct_delta_sum cs"
      if d: "distinct (map (\<lambda>r. txnId (result_record r)) (filter processed rs))"
      using applyMany_first_applies [OF run lk0 d] sum
      by (simp add: spec_distinct_delta_sum_def)
    have few: "distinct (map (\<lambda>r. txnId (result_record r)) (filter processed rs))"
      if "card (set (map (\<lambda>c. p_txnId (fst c)) cs)) \<le> 64"
      using applyMany_no_eviction [OF inv0 run] that
      by (simp add: resident_empty_ring sz0)
    from sum first few show ?thesis by blast
  qed
  then have "safe_run bal0 cs rs \<longrightarrow>
             bal = bal0 + sum_list (map (\<lambda>r. delta (result_record r)) (filter processed rs))
             \<and> (distinct (map (\<lambda>r. txnId (result_record r)) (filter processed rs))
                  \<longrightarrow> bal = bal0 + spec_distinct_delta_sum cs)
             \<and> (card (set (map (\<lambda>c. p_txnId (fst c)) cs)) \<le> 64
                  \<longrightarrow> distinct (map (\<lambda>r. txnId (result_record r)) (filter processed rs)))"
    by blast
  then show ?thesis unfolding b0 drun prod.case .
qed

lemma S3_replay_spec_sum: "spec_distinct_delta_sum (S3_calls @ [hd S3_calls]) = 65"
  by (simp add: spec_distinct_delta_sum_def S3_calls_def S3_txnIds_def credit_one_def)

lemma S3_spec_sum: "spec_distinct_delta_sum S3_calls = 65"
  by (simp add: spec_distinct_delta_sum_def S3_calls_def S3_txnIds_def credit_one_def)

lemma S3_calls_length: "length S3_calls = 65"
  using arg_cong [OF S3_calls_txnIds, of length] S3_txnIds_length by simp

lemma S3_calls_distinct: "distinct (map (\<lambda>c. p_txnId (fst c)) S3_calls)"
  unfolding S3_calls_txnIds by (rule S3_txnIds_distinct)

lemma S3_replay_balance:
  "fst (snd (applyMany 0 (empty_ring 64) (S3_calls @ [hd S3_calls]))) = 66"
proof -
  obtain rs bal b where run: "applyMany 0 (empty_ring 64) S3_calls = (rs, bal, b)"
    by (cases "applyMany 0 (empty_ring 64) S3_calls") auto
  obtain p now where hd: "hd S3_calls = (p, now)" by (cases "hd S3_calls")
  obtain r b2 where replay: "applyIdempotentTransaction bal (fst (hd S3_calls)) b now = (r, b2)"
    by (cases "applyIdempotentTransaction bal (fst (hd S3_calls)) b now") auto
  note A = eviction_run [OF S3_calls_length S3_calls_distinct S3_calls_ones run]
  note B = eviction_replay [OF S3_calls_length S3_calls_distinct A(3,4,5) replay]
  have "p_delta (fst (hd S3_calls)) = 1"
    by (simp add: S3_calls_def S3_txnIds_def credit_one_def)
  then have "balance r = 66" using B(2) A(1) by simp
  then show ?thesis using replay by (simp add: applyMany_append run hd)
qed


theorem balance_conservation_witness:
  "new_ProcessedTxnBuffer DEFAULT_RING_SIZE = Inr (empty_ring 64)
   \<and> card (set (map (\<lambda>c. p_txnId (fst c))
         [credit_one ''A'', credit_one ''B'', ((fst (credit_one ''A''))\<lparr>p_delta := 10\<rparr>, 5)]))
       \<le> 64
   \<and> (case applyMany_double 0 (empty_ring 64)
           [credit_one ''A'', credit_one ''B'', ((fst (credit_one ''A''))\<lparr>p_delta := 10\<rparr>, 5)]
       of (rs, bal, b) \<Rightarrow>
         safe_run 0
           [credit_one ''A'', credit_one ''B'', ((fst (credit_one ''A''))\<lparr>p_delta := 10\<rparr>, 5)] rs
         \<and> distinct (map (\<lambda>r. txnId (result_record r)) (filter processed rs))
         \<and> bal = 0 + sum_list (map (\<lambda>r. delta (result_record r)) (filter processed rs))
         \<and> bal = 0 + spec_distinct_delta_sum
               [credit_one ''A'', credit_one ''B'',
                ((fst (credit_one ''A''))\<lparr>p_delta := 10\<rparr>, 5)])
   \<and> spec_distinct_delta_sum
         [credit_one ''A'', credit_one ''B'', ((fst (credit_one ''A''))\<lparr>p_delta := 10\<rparr>, 5)] = 2
   \<and> (case applyMany_double 0 (empty_ring 64) S3_calls of (rs, bal, b) \<Rightarrow>
         safe_run 0 S3_calls rs
         \<and> distinct (map (\<lambda>r. txnId (result_record r)) (filter processed rs))
         \<and> bal = 0 + spec_distinct_delta_sum S3_calls
         \<and> length (listNewestFirst b) < length (filter processed rs))
   \<and> spec_distinct_delta_sum S3_calls = 65"
proof -
  let ?cs = "[credit_one ''A'', credit_one ''B'', ((fst (credit_one ''A''))\<lparr>p_delta := 10\<rparr>, 5)]"
  have new: "new_ProcessedTxnBuffer DEFAULT_RING_SIZE = Inr (empty_ring 64)"
    by (simp add: new_default_ring)
  have "card (set (map (\<lambda>c. p_txnId (fst c)) ?cs)) \<le> length (map (\<lambda>c. p_txnId (fst c)) ?cs)"
    by (rule card_length)
  then have card: "card (set (map (\<lambda>c. p_txnId (fst c)) ?cs)) \<le> 64"
    by simp
  have spec: "spec_distinct_delta_sum ?cs = 2"
    by (simp add: spec_distinct_delta_sum_def credit_one_def)
  obtain rs bal b where run: "applyMany 0 (empty_ring 64) ?cs = (rs, bal, b)"
    by (cases "applyMany 0 (empty_ring 64) ?cs") auto
  have deltas: "list_all (\<lambda>c. 0 \<le> p_delta (fst c) \<and> p_delta (fst c) \<le> 10) ?cs"
    by (simp add: credit_one_def)
  have len: "length ?cs \<le> 100" by simp
  have safe: "safe_run 0 ?cs rs"
    by (rule small_credits_safe_run [OF run deltas len])
  have drun: "applyMany_double 0 (empty_ring 64) ?cs = (rs, bal, b)"
    by (rule small_credits_double_run [OF run deltas len])
  note T = balance_conservation [OF new, of 0 ?cs, unfolded drun prod.case]
  from T card safe have "safe_run 0 ?cs rs
         \<and> distinct (map (\<lambda>r. txnId (result_record r)) (filter processed rs))
         \<and> bal = 0 + sum_list (map (\<lambda>r. delta (result_record r)) (filter processed rs))
         \<and> bal = 0 + spec_distinct_delta_sum ?cs"
    by blast
  then have small: "(case applyMany_double 0 (empty_ring 64) ?cs of (rs, bal, b) \<Rightarrow>
         safe_run 0 ?cs rs
         \<and> distinct (map (\<lambda>r. txnId (result_record r)) (filter processed rs))
         \<and> bal = 0 + sum_list (map (\<lambda>r. delta (result_record r)) (filter processed rs))
         \<and> bal = 0 + spec_distinct_delta_sum ?cs)"
    unfolding drun prod.case .
  obtain rs3 bal3 b3 where run3: "applyMany 0 (empty_ring 64) S3_calls = (rs3, bal3, b3)"
    by (cases "applyMany 0 (empty_ring 64) S3_calls") auto
  note A = eviction_run [OF S3_calls_length S3_calls_distinct S3_calls_ones run3]
  have inv0: "ring_inv (empty_ring 64)" by (simp add: ring_inv_empty_ring)
  have fresh: "list_all processed rs3 \<and>
      map (\<lambda>r. txnId (result_record r)) rs3 = map (\<lambda>c. p_txnId (fst c)) S3_calls \<and>
      map (\<lambda>r. delta (result_record r)) rs3 = map (\<lambda>c. p_delta (fst c)) S3_calls"
    by (rule applyMany_fresh [OF inv0 S3_calls_distinct _ run3]) (simp add: resident_empty_ring)
  then have all: "filter processed rs3 = rs3" by (simp add: filter_list_all)
  have d3: "distinct (map (\<lambda>r. txnId (result_record r)) (filter processed rs3))"
    using fresh S3_calls_distinct by (simp add: all)
  have len3: "length rs3 = 65"
    using applyMany_inv [OF inv0 run3] S3_calls_length by simp
  have "length (resident b3) = 64"
    using arg_cong [OF A(5), of length] S3_calls_length by simp
  then have gone: "length (listNewestFirst b3) < length (filter processed rs3)"
    by (simp add: listNewestFirst_resident all len3)
  have ones: "list_all (\<lambda>c. 0 \<le> p_delta (fst c) \<and> p_delta (fst c) \<le> 10) S3_calls"
    using S3_calls_ones by (auto simp: list_all_iff)
  have len65: "length S3_calls \<le> 100" by (simp add: S3_calls_length)
  have safe3: "safe_run 0 S3_calls rs3"
    by (rule small_credits_safe_run [OF run3 ones len65])
  have drun3: "applyMany_double 0 (empty_ring 64) S3_calls = (rs3, bal3, b3)"
    by (rule small_credits_double_run [OF run3 ones len65])
  note T3 = balance_conservation [OF new, of 0 S3_calls, unfolded drun3 prod.case]
  from T3 d3 safe3 have "bal3 = 0 + spec_distinct_delta_sum S3_calls" by blast
  with d3 gone safe3 have "safe_run 0 S3_calls rs3
         \<and> distinct (map (\<lambda>r. txnId (result_record r)) (filter processed rs3))
         \<and> bal3 = 0 + spec_distinct_delta_sum S3_calls
         \<and> length (listNewestFirst b3) < length (filter processed rs3)"
    by blast
  then have big: "(case applyMany_double 0 (empty_ring 64) S3_calls of (rs, bal, b) \<Rightarrow>
         safe_run 0 S3_calls rs
         \<and> distinct (map (\<lambda>r. txnId (result_record r)) (filter processed rs))
         \<and> bal = 0 + spec_distinct_delta_sum S3_calls
         \<and> length (listNewestFirst b) < length (filter processed rs))"
    unfolding drun3 prod.case .
  from new card small spec big S3_spec_sum show ?thesis by (intro conjI)
qed

lemma S3_replay_double_balance:
  "fst (snd (applyMany_double 0 (empty_ring 64) (S3_calls @ [hd S3_calls]))) = 66"
proof -
  let ?cs = "S3_calls @ [hd S3_calls]"
  obtain rs bal b where run: "applyMany 0 (empty_ring 64) ?cs = (rs, bal, b)"
    by (cases "applyMany 0 (empty_ring 64) ?cs") auto
  have "S3_calls \<noteq> []" using S3_calls_length by auto
  then have "hd S3_calls \<in> set S3_calls" by (rule hd_in_set)
  then have ones: "list_all (\<lambda>c. 0 \<le> p_delta (fst c) \<and> p_delta (fst c) \<le> 10) ?cs"
    using S3_calls_ones by (auto simp: list_all_iff)
  have len: "length ?cs \<le> 100" by (simp add: S3_calls_length)
  from small_credits_double_run [OF run ones len] S3_replay_balance run
  show ?thesis by simp
qed

lemma unsafe_calls_run:
  "applyMany_double 0 (empty_ring 64) unsafe_calls = (rs, bal, b) \<Longrightarrow>
   map processed rs = [True, True, True]
   \<and> map balance rs = [9007199254740991, 9007199254740992, 1]
   \<and> map (\<lambda>r. delta (result_record r)) rs = [9007199254740991, 2, - 9007199254740991]
   \<and> bal = 1"
  by (auto simp: unsafe_calls_def credit_one_def applyIdempotentTransaction_double_def
        candidate_double_def record_txn_def empty_ring_def slot_at_def slot_set_def Let_def
        double_add_def round_double_def exponent_above.simps)

text \<open>
  The claim as stated fails twice. At the eviction boundary: after \<open>T1\<close> to \<open>T65\<close>, each
  with delta 1, a replay of \<open>T1\<close> is processed again; the balance is 66, the sum of delta
  over the 65 distinct ids is 65. And beyond the safe integers: three calls with different
  ids and the deltas \<open>2^53 - 1\<close>, 2 and \<open>-(2^53 - 1)\<close> are all processed; the second sum
  is rounded to \<open>2^53\<close>, the balance is 1, the sum of delta is 2.
\<close>

theorem conservation_counterexample:
  "fst (snd (applyMany_double 0 (empty_ring 64) (S3_calls @ [hd S3_calls]))) = 66
   \<and> spec_distinct_delta_sum (S3_calls @ [hd S3_calls]) = 65
   \<and> fst (snd (applyMany_double 0 (empty_ring 64) (S3_calls @ [hd S3_calls])))
       \<noteq> spec_distinct_delta_sum (S3_calls @ [hd S3_calls])
   \<and> map (\<lambda>r. balance r) (fst (applyMany_double 0 (empty_ring 64) unsafe_calls))
       = [9007199254740991, 9007199254740992, 1]
   \<and> fst (snd (applyMany_double 0 (empty_ring 64) unsafe_calls)) = 1
   \<and> spec_distinct_delta_sum unsafe_calls = 2
   \<and> fst (snd (applyMany_double 0 (empty_ring 64) unsafe_calls))
       \<noteq> spec_distinct_delta_sum unsafe_calls"
proof -
  obtain rs bal b where run: "applyMany_double 0 (empty_ring 64) unsafe_calls = (rs, bal, b)"
    by (cases "applyMany_double 0 (empty_ring 64) unsafe_calls") auto
  note U = unsafe_calls_run [OF run]
  have spec: "spec_distinct_delta_sum unsafe_calls = 2"
    by (simp add: spec_distinct_delta_sum_def unsafe_calls_def credit_one_def)
  from U spec show ?thesis
    by (simp add: S3_replay_double_balance S3_replay_spec_sum run)
qed

subsection \<open>The store client agrees with one session on one ring\<close>

lemma seeded_buffer_resident:
  assumes "distinct (map txnId xs)" and "length xs \<le> 64"
  shows "ring_inv (seeded_buffer xs) \<and> ring_size (seeded_buffer xs) = 64
         \<and> resident (seeded_buffer xs) = xs"
proof -
  have inv0: "ring_inv (empty_ring 64)" by (simp add: ring_inv_empty_ring)
  have log: "inserted_log (empty_ring 64) xs = xs"
    using assms(1) by (intro inserted_log_distinct inv0) (simp_all add: resident_empty_ring)
  have sb: "seeded_buffer xs = record_all (empty_ring 64) xs"
    by (simp add: seeded_buffer_def DEFAULT_RING_SIZE_def)
  have "resident (record_all (empty_ring 64) xs) = rev (take 64 (rev xs))"
    unfolding resident_def using record_all_empty_ring(3) [of 64 xs] by (simp add: log)
  then have "resident (record_all (empty_ring 64) xs) = xs" using assms(2) by simp
  then show ?thesis
    using record_all_empty_ring(1,2) [of 64 xs] by (simp add: sb)
qed

lemma apply_by_resident:
  assumes "ring_inv b" and "applyIdempotentTransaction bal p b now = (r, b')"
  shows "ring_inv b' \<and> ring_size b' = ring_size b
       \<and> (case find (\<lambda>t. txnId t = p_txnId p) (resident b) of
             Some e \<Rightarrow>
               r = \<lparr>balance = bal, processed = False, result_record = e\<rparr>
               \<and> resident b' = resident b
           | None \<Rightarrow>
               r = \<lparr>balance = bal + p_delta p, processed = True,
                     result_record = candidate bal p now\<rparr>
               \<and> resident b'
                   = (if length (resident b) < ring_size b then resident b else tl (resident b))
                       @ [candidate bal p now])"
proof (cases "lookup b (p_txnId p)")
  case None
  then have f: "find (\<lambda>t. txnId t = p_txnId p) (resident b) = None"
    using assms(1) by (simp add: ring_inv_def)
  have miss: "lookup b (txnId (candidate bal p now)) = None" using None by simp
  from assms(2) have "r = \<lparr>balance = bal + p_delta p, processed = True,
        result_record = candidate bal p now\<rparr>"
    and "b' = snd (record_txn b (candidate bal p now))"
    by (simp_all add: apply_miss [OF None])
  then show ?thesis using record_txn_miss_step [OF assms(1) miss] by (simp add: f)
next
  case (Some e)
  then have f: "find (\<lambda>t. txnId t = p_txnId p) (resident b) = Some e"
    using assms(1) by (simp add: ring_inv_def)
  from assms(2) have "r = \<lparr>balance = bal, processed = False, result_record = e\<rparr>" and "b' = b"
    by (simp_all add: apply_hit [OF Some])
  then show ?thesis using assms(1) by (simp add: f)
qed

lemma updateMany_applyMany:
  "ring_inv b \<Longrightarrow> ring_size b = 64 \<Longrightarrow>
   (case stored of
      None \<Rightarrow> bal = 0 \<and> resident b = []
    | Some d \<Rightarrow> profile_balance d = bal \<and> profile_processed d = resident b) \<Longrightarrow>
   updateMany stored cs = (rs, stored') \<Longrightarrow>
   applyMany bal b (map (\<lambda>(c, now). (command_params c, now)) cs) = (rs2, bal', b') \<Longrightarrow>
     rs = rs2
     \<and> (case stored' of
            None \<Rightarrow> bal' = 0 \<and> resident b' = []
          | Some d \<Rightarrow> profile_balance d = bal' \<and> profile_processed d = resident b')"
proof (induction cs arbitrary: b stored bal rs rs2)
  case Nil
  then show ?case by auto
next
  case (Cons c cs)
  obtain command now where c: "c = (command, now)" by (cases c)
  let ?p = "command_params command"
  define profile where "profile =
    (case stored of Some d \<Rightarrow> d | None \<Rightarrow> \<lparr>profile_balance = 0, profile_processed = []\<rparr>)"
  have pb: "profile_balance profile = bal" and pp: "profile_processed profile = resident b"
    using Cons.prems(3) by (auto simp: profile_def split: option.splits)
  have dist: "distinct (map txnId (resident b))" using Cons.prems(1) by (simp add: ring_inv_def)
  have len: "length (resident b) \<le> 64"
    using ring_inv_length_resident [OF Cons.prems(1)] Cons.prems(2) by simp
  let ?s = "seeded_buffer (profile_processed profile)"
  from seeded_buffer_resident [OF dist len]
  have sinv: "ring_inv ?s" and ssz: "ring_size ?s = 64" and sres: "resident ?s = resident b"
    by (simp_all add: pp)
  obtain r sb where sa: "applyIdempotentTransaction bal ?p ?s now = (r, sb)"
    by (cases "applyIdempotentTransaction bal ?p ?s now") auto
  obtain r2 b2 where ma: "applyIdempotentTransaction bal ?p b now = (r2, b2)"
    by (cases "applyIdempotentTransaction bal ?p b now") auto
  note S = apply_by_resident [OF sinv sa]
  note M = apply_by_resident [OF Cons.prems(1) ma]
  have rr: "r = r2" and res2: "resident sb = resident b2"
    using S M by (auto simp: sres ssz Cons.prems(2) split: option.splits)
  have inv2: "ring_inv b2" and sz2: "ring_size b2 = 64" using M Cons.prems(2) by simp_all
  define posted where "posted =
    (if \<not> processed r then None
     else Some \<lparr>profile_balance = balance r, profile_processed = rev (listNewestFirst sb)\<rparr>)"
  have att: "updateEconomyProfile_attempt stored command now
      = (r, (if \<not> processed r then profile
             else \<lparr>profile_balance = balance r, profile_processed = rev (listNewestFirst sb)\<rparr>),
         posted)"
    using sa by (simp add: updateEconomyProfile_attempt_def Let_def profile_def [symmetric] pb
                   posted_def)
  obtain rs0 where rs: "rs = r # rs0"
    and rest: "updateMany (nullish posted stored) cs = (rs0, stored')"
    using Cons.prems(4) by (auto simp: c att split: prod.splits)
  obtain rs20 where rs2: "rs2 = r2 # rs20"
    and rest2: "applyMany (balance r2) b2 (map (\<lambda>(c, now). (command_params c, now)) cs)
                  = (rs20, bal', b')"
    using Cons.prems(5) by (auto simp: c ma split: prod.splits)
  have rel: "(case nullish posted stored of
      None \<Rightarrow> balance r2 = 0 \<and> resident b2 = []
    | Some d \<Rightarrow> profile_balance d = balance r2 \<and> profile_processed d = resident b2)"
  proof (cases "processed r")
    case True
    have "rev (listNewestFirst sb) = resident b2"
      using res2 by (simp add: resident_def)
    with True show ?thesis
      by (simp add: posted_def rr [symmetric])
  next
    case False
    then have same: "balance r2 = bal" "resident b2 = resident b"
      using M rr by (auto split: option.splits)
    from False have hit: "find (\<lambda>t. txnId t = p_txnId ?p) (resident b) \<noteq> None"
      using M rr by (auto split: option.splits)
    then have "resident b \<noteq> []" by auto
    then have "stored \<noteq> None" using Cons.prems(3) by (auto split: option.splits)
    then show ?thesis using False Cons.prems(3) same
      by (auto simp: posted_def split: option.splits)
  qed
  from Cons.IH [OF inv2 sz2 rel rest rest2] show ?case by (simp add: rs rs2 rr)
qed

text \<open>
  From a missing store entry, the runs of the store client give the results of one
  session that applies the same commands to one new ring, and the stored profile holds
  that session's balance and resident records.
\<close>

lemma updateMany_from_missing_entry:
  assumes "updateMany None cs = (rs, stored')"
    and "applyMany 0 (empty_ring 64) (map (\<lambda>(c, now). (command_params c, now)) cs)
           = (rs2, bal', b')"
  shows "rs = rs2
       \<and> (case stored' of
              None \<Rightarrow> bal' = 0 \<and> resident b' = []
            | Some d \<Rightarrow> profile_balance d = bal' \<and> profile_processed d = resident b')"
proof (rule updateMany_applyMany [OF _ _ _ assms])
  show "ring_inv (empty_ring 64)" by (simp add: ring_inv_empty_ring)
  show "ring_size (empty_ring 64) = 64" by (simp add: empty_ring_def)
  show "case None of
          None \<Rightarrow> (0::int) = 0 \<and> resident (empty_ring 64) = []
        | Some d \<Rightarrow> profile_balance d = 0 \<and> profile_processed d = resident (empty_ring 64)"
    by (simp add: resident_empty_ring)
qed

end
